theory Spec2Isabelle
  imports Complex_Main
begin

section \<open>Errors and Python values\<close>

text \<open>
  Every exception the modelled code can raise is a value of \<open>error\<close>; a fallible
  operation returns \<open>error + 'a\<close> with \<open>Inl\<close> for the exception.
\<close>

datatype error =
    IndexError
  | ValueError
  | TypeError
  | ZeroDivisionError
  | StopIteration
  | RuntimeError
  | OSError
  | ShapeMismatchError

text \<open>
  The cells of \<open>csv_data\<close> are Python objects: strings as \<open>csv.reader\<close> yields
  them, or floats once the loop of \<open>CSVDataset.__init__\<close> has converted them. The
  type \<open>'f\<close> stands for Python's float.
\<close>

datatype 'f cell = Str string | Num 'f

section \<open>csv\_loader.py\<close>

text \<open>
  \<open>float(x)\<close>: parsing a string is the collaborator \<open>to_float\<close>, which returns
  \<open>None\<close> where Python raises ValueError; a float is returned as it is.
\<close>

fun py_float :: "(string \<Rightarrow> 'f option) \<Rightarrow> 'f cell \<Rightarrow> 'f option" where
  "py_float to_float (Str s) = to_float s"
| "py_float to_float (Num v) = Some v"

text \<open>
  The inner loop \<open>for j in range(len(csv_data[1]))\<close> at a row \<open>i \<noteq> 0\<close>:
  \<open>csv_data[i][j] = float(csv_data[i][j])\<close>. Reading \<open>csv_data[i][j]\<close> beyond the
  row's end raises IndexError.
\<close>

fun convert_cells :: "(string \<Rightarrow> 'f option) \<Rightarrow> nat list \<Rightarrow> 'f cell list \<Rightarrow> error + 'f cell list" where
  "convert_cells to_float [] row = Inr row"
| "convert_cells to_float (j # js) row =
     (if j < length row then
        (case py_float to_float (row ! j) of
           None \<Rightarrow> Inl ValueError
         | Some v \<Rightarrow> convert_cells to_float js (row[j := Num v]))
      else Inl IndexError)"

text \<open>
  The outer loop \<open>for i in range(len(csv_data))\<close>. Each pass first evaluates
  \<open>len(csv_data[1])\<close>, also at \<open>i = 0\<close>, where the body does nothing else.
\<close>

fun convert_rows :: "(string \<Rightarrow> 'f option) \<Rightarrow> nat list \<Rightarrow> 'f cell list list \<Rightarrow> error + 'f cell list list" where
  "convert_rows to_float [] csv_data = Inr csv_data"
| "convert_rows to_float (i # is) csv_data =
     (if length csv_data \<le> 1 then Inl IndexError
      else if i = 0 then convert_rows to_float is csv_data
      else
        (case convert_cells to_float [0..<length (csv_data ! 1)] (csv_data ! i) of
           Inl e \<Rightarrow> Inl e
         | Inr row \<Rightarrow> convert_rows to_float is (csv_data[i := row])))"

text \<open>
  \<open>torch.tensor(rows)\<close> of a list of lists: the library refuses rows of different
  lengths and cells that are not numbers; otherwise the tensor holds the numbers. An
  empty list gives a tensor whose first dimension is 0.
\<close>

fun the_Num :: "'f cell \<Rightarrow> 'f option" where
  "the_Num (Num v) = Some v"
| "the_Num (Str s) = None"

definition is_Num :: "'f cell \<Rightarrow> bool" where
  "is_Num c = (the_Num c \<noteq> None)"

definition torch_tensor :: "'f cell list list \<Rightarrow> error + 'f list list" where
  "torch_tensor rows =
     (if (\<forall>r \<in> set rows. length r = length (hd rows)) \<and> (\<forall>r \<in> set rows. \<forall>c \<in> set r. is_Num c)
      then Inr (map (map (\<lambda>c. the (the_Num c))) rows)
      else Inl ValueError)"

text \<open>
  \<open>CSVDataset.__init__\<close>. The argument is what \<open>list(csv.reader(csvfile))\<close>
  returns, a list of rows of strings. \<open>f32\<close> is the rounding of a Python float to the
  tensor's 32-bit element type (\<open>.float()\<close>). The result is \<open>self.csv_tensor\<close>.
\<close>

definition CSVDataset_init ::
  "(string \<Rightarrow> 'f option) \<Rightarrow> ('f \<Rightarrow> 't) \<Rightarrow> string list list \<Rightarrow> error + 't list list" where
  "CSVDataset_init to_float f32 file_rows =
     (let csv_data = map (map Str) file_rows in
      case convert_rows to_float [0..<length csv_data] csv_data of
        Inl e \<Rightarrow> Inl e
      | Inr converted \<Rightarrow>
          (case torch_tensor (drop 1 converted) of
             Inl e \<Rightarrow> Inl e
           | Inr t \<Rightarrow> Inr (map (map f32) t)))"

text \<open>\<open>CSVDataset.__len__\<close>: \<open>self.csv_tensor.shape[0]\<close>.\<close>

definition CSVDataset_len :: "'t list list \<Rightarrow> nat" where
  "CSVDataset_len csv_tensor = length csv_tensor"

text \<open>
  \<open>CSVDataset.__getitem__\<close>: \<open>(self.csv_tensor[index][:-1],
  self.csv_tensor[index][-1].long())\<close>. A negative index counts from the end; an index
  out of range raises IndexError, and so does \<open>[-1]\<close> on a row without cells.
  \<open>long\<close> is the conversion of a tensor element to a 64-bit integer.
\<close>

definition CSVDataset_getitem :: "('t \<Rightarrow> int) \<Rightarrow> 't list list \<Rightarrow> int \<Rightarrow> error + ('t list \<times> int)" where
  "CSVDataset_getitem long csv_tensor index =
     (let n = int (length csv_tensor);
          k = (if index < 0 then index + n else index)
      in if 0 \<le> k \<and> k < n then
           (let row = csv_tensor ! nat k
            in if row = [] then Inl IndexError
               else Inr (butlast row, long (last row)))
         else Inl IndexError)"

text \<open>
  A valid CSV input, in the words of the specification: a header row and data rows after
  it, every row of the same width, that width holding at least the label column, and
  every cell of a data row numeric, that is, accepted by \<open>float\<close>.
\<close>

definition valid_csv :: "(string \<Rightarrow> 'f option) \<Rightarrow> string list list \<Rightarrow> bool" where
  "valid_csv to_float file_rows =
     (2 \<le> length file_rows
      \<and> 0 < length (hd file_rows)
      \<and> (\<forall>r \<in> set file_rows. length r = length (hd file_rows))
      \<and> (\<forall>r \<in> set (tl file_rows). \<forall>c \<in> set r. to_float c \<noteq> None))"


text \<open>
  What the loader needs of a file, as the code has it: at least one row after the first,
  every such data row as wide as the first data row, and every cell of a data row
  numeric. Nothing is asked of the first row, the header.
\<close>

definition valid_data :: "(string \<Rightarrow> 'f option) \<Rightarrow> string list list \<Rightarrow> bool" where
  "valid_data to_float file_rows =
     (2 \<le> length file_rows
      \<and> list_all (\<lambda>r. length r = length (file_rows ! 1) \<and> list_all (\<lambda>c. to_float c \<noteq> None) r)
            (tl file_rows))"

text \<open>
  Bookkeeping relations for the conversion loops: a cell either stays as it is or is
  replaced by the float that \<open>float\<close> reads from it, and a row keeps its length
  while its cells make such steps.
\<close>

definition cell_step :: "(string \<Rightarrow> 'f option) \<Rightarrow> 'f cell \<Rightarrow> 'f cell \<Rightarrow> bool" where
  "cell_step to_float c c' = (c' = c \<or> (\<exists>v. py_float to_float c = Some v \<and> c' = Num v))"

definition row_step :: "(string \<Rightarrow> 'f option) \<Rightarrow> 'f cell list \<Rightarrow> 'f cell list \<Rightarrow> bool" where
  "row_step to_float r r' = (length r' = length r \<and> (\<forall>k < length r. cell_step to_float (r ! k) (r' ! k)))"

section \<open>run.py: training and evaluation\<close>

text \<open>
  A Python float that may be infinite or not a number: the early-stop threshold comes
  from the command line (\<open>type=float\<close>) or is \<open>math.inf\<close>. An accuracy is always
  a finite quotient, so the comparison \<open>acc >= threshold\<close> has a finite left side.
\<close>

datatype pyfloat = Fin real | PInf | NInf | NaN

fun float_ge :: "real \<Rightarrow> pyfloat \<Rightarrow> bool" where
  "float_ge acc (Fin t) = (t \<le> acc)"
| "float_ge acc PInf = False"
| "float_ge acc NInf = True"
| "float_ge acc NaN = False"

text \<open>
  \<open>correct/data.shape[0]\<close> divides two Python ints and gives a float: the double
  nearest to the quotient, ties going to the even mantissa. \<open>bit_length\<close> is
  \<open>int.bit_length\<close>; \<open>binary_exponent c n\<close> is the \<open>e\<close> with
  \<open>2^e \<le> c/n < 2^(e+1)\<close>; the quotient is rounded to a multiple of \<open>2^(e-52)\<close>,
  which leaves it a mantissa of 53 bits. The counts of a batch lie far below \<open>2^63\<close>,
  so the quotient is in the range of the normal doubles, where this is the rounding of
  IEEE 754. The value of a float is kept as the real number it denotes.
\<close>

fun bit_length :: "nat \<Rightarrow> nat" where
  "bit_length n = (if n = 0 then 0 else Suc (bit_length (n div 2)))"

declare bit_length.simps [simp del]

definition binary_exponent :: "nat \<Rightarrow> nat \<Rightarrow> int" where
  "binary_exponent c n =
     (let d = int (bit_length c) - int (bit_length n)
      in if (if 0 \<le> d then 2 ^ nat d * int n \<le> int c else int n \<le> int c * 2 ^ nat (- d))
         then d else d - 1)"

definition round_half_even :: "int \<Rightarrow> int \<Rightarrow> int" where
  "round_half_even a b =
     (let q = a div b; r = a mod b
      in if 2 * r < b then q else if b < 2 * r then q + 1 else if even q then q else q + 1)"

definition py_truediv :: "nat \<Rightarrow> nat \<Rightarrow> real" where
  "py_truediv c n =
     (if c = 0 then 0
      else (let k = binary_exponent c n - 52
            in if 0 \<le> k then of_int (round_half_even (int c) (int n * 2 ^ nat k)) * 2 ^ nat k
               else of_int (round_half_even (int c * 2 ^ nat (- k)) (int n)) / 2 ^ nat (- k)))"

text \<open>The one line \<open>train\<close> prints: network id, threshold and accuracy.\<close>

datatype message = Early_terminated nat pyfloat real

text \<open>
  A batch is the pair of tensors \<open>(data, target)\<close>. A loader is a
  \<open>DataLoader\<close> with \<open>shuffle=True\<close>: \<open>iter(loader)\<close> consumes the global
  random generator and yields the batches of one pass.
\<close>

type_synonym 'x batch = "'x list \<times> int list"

type_synonym ('x, 'r) loader = "'r \<Rightarrow> 'x batch list \<times> 'r"

text \<open>
  The mutable objects \<open>train\<close> and \<open>main\<close> work on. The optimizer and the
  scheduler hold references to the model's parameters and to each other, so they are
  fields of one state: the parameters and their \<open>.grad\<close>, the module's mode flag,
  Adadelta's accumulators and learning rate, the count of \<open>optimizer.step()\<close> calls
  (\<open>optimizer._step_count\<close>), the scheduler's \<open>last_epoch\<close>, the global random
  generator and the lines printed so far.
\<close>

record ('p, 'g, 's, 'r) world =
  params :: 'p
  grad :: 'g
  training :: bool
  opt_state :: 's
  lr :: real
  step_count :: nat
  last_epoch :: nat
  rng :: 'r
  stdout :: "message list"

text \<open>
  The collaborators \<open>model.py\<close> and PyTorch, as functions: the forward pass of
  \<open>Net\<close> (it reads the parameters and the mode and may consume randomness), the
  row-wise \<open>argmax\<close>, the two losses, \<open>loss.backward()\<close> (which adds the loss's
  gradient to \<open>.grad\<close>), \<open>optimizer.zero_grad()\<close>, Adadelta's update rule, and
  the rounded sum and quotient with which \<open>evaluate\<close> accumulates and averages the
  loss (\<open>test_loss += ...\<close>, \<open>test_loss/len(...)\<close>).
  \<open>'o\<close> is an output tensor and \<open>'l\<close> a loss tensor, each with its autograd graph.
\<close>

record ('x, 'o, 'l, 'p, 'g, 's, 'r) net =
  forward :: "'p \<Rightarrow> bool \<Rightarrow> 'x list \<Rightarrow> 'r \<Rightarrow> 'o \<times> 'r"
  argmax :: "'o \<Rightarrow> int list"
  cross_entropy :: "'o \<Rightarrow> int list \<Rightarrow> 'l"
  nll_loss_sum :: "'o \<Rightarrow> int list \<Rightarrow> real"
  backward :: "'l \<Rightarrow> 'g \<Rightarrow> 'g"
  zero_grad :: "'g \<Rightarrow> 'g"
  adadelta_step :: "real \<Rightarrow> 's \<Rightarrow> 'p \<Rightarrow> 'g \<Rightarrow> 'p \<times> 's"
  float_add :: "real \<Rightarrow> real \<Rightarrow> real"
  float_div :: "real \<Rightarrow> nat \<Rightarrow> real"

text \<open>
  \<open>pred.eq(target.view_as(pred)).sum().item()\<close>: \<open>view_as\<close> raises when the two
  tensors differ in their number of elements.
\<close>

definition count_correct :: "int list \<Rightarrow> int list \<Rightarrow> error + nat" where
  "count_correct pred target =
     (if length target \<noteq> length pred then Inl RuntimeError
      else Inr (length (filter (\<lambda>(p, t). p = t) (zip pred target))))"

text \<open>
  \<open>evaluate_once(model, device, data, target)\<close>. The device only places tensors and
  is left out. The division \<open>correct/data.shape[0]\<close> of two Python ints raises
  ZeroDivisionError on an empty batch and is rounded to a double otherwise.
\<close>

definition evaluate_once ::
  "('x, 'o, 'l, 'p, 'g, 's, 'r) net \<Rightarrow> 'x list \<Rightarrow> int list \<Rightarrow> ('p, 'g, 's, 'r) world
     \<Rightarrow> error + (real \<times> ('p, 'g, 's, 'r) world)" where
  "evaluate_once N data target w =
     (let (output, r) = forward N (params w) (training w) data (rng w);
          w1 = w\<lparr>rng := r\<rparr>;
          pred = argmax N output
      in case count_correct pred target of
           Inl e \<Rightarrow> Inl e
         | Inr correct \<Rightarrow>
             if length data = 0 then Inl ZeroDivisionError
             else Inr (py_truediv correct (length data), w1))"

text \<open>
  The body of \<open>train\<close>'s loop for one batch, up to the early-stop test, in the
  source's order: \<open>optimizer.zero_grad()\<close>, the forward pass, the loss, one fresh
  evaluation batch (\<open>next(iter(evaluation_loader))\<close>, StopIteration when that
  loader is empty) and its accuracy. The result is the accuracy, the loss tensor and the
  state reached.
\<close>

definition check_accuracy ::
  "('x, 'o, 'l, 'p, 'g, 's, 'r) net \<Rightarrow> ('x, 'r) loader \<Rightarrow> 'x batch \<Rightarrow> ('p, 'g, 's, 'r) world
     \<Rightarrow> error + (real \<times> 'l \<times> ('p, 'g, 's, 'r) world)" where
  "check_accuracy N evaluation_loader b w =
     (let w1 = w\<lparr>grad := zero_grad N (grad w)\<rparr>;
          (output, r) = forward N (params w1) (training w1) (fst b) (rng w1);
          w2 = w1\<lparr>rng := r\<rparr>;
          loss = cross_entropy N output (snd b);
          (eval_batches, r') = evaluation_loader (rng w2);
          w3 = w2\<lparr>rng := r'\<rparr>
      in case eval_batches of
           [] \<Rightarrow> Inl StopIteration
         | eval_data # _ \<Rightarrow>
             (case evaluate_once N (fst eval_data) (snd eval_data) w3 of
                Inl e \<Rightarrow> Inl e
              | Inr (acc, w4) \<Rightarrow> Inr (acc, loss, w4)))"

text \<open>The rest of the body: \<open>loss.backward()\<close> and \<open>optimizer.step()\<close>.\<close>

definition gradient_step ::
  "('x, 'o, 'l, 'p, 'g, 's, 'r) net \<Rightarrow> 'l \<Rightarrow> ('p, 'g, 's, 'r) world \<Rightarrow> ('p, 'g, 's, 'r) world" where
  "gradient_step N loss w =
     (let w1 = w\<lparr>grad := backward N loss (grad w)\<rparr>;
          (p, s) = adadelta_step N (lr w1) (opt_state w1) (params w1) (grad w1)
      in w1\<lparr>params := p, opt_state := s, step_count := Suc (step_count w1)\<rparr>)"

text \<open>
  The loop of \<open>train\<close> over the batches of \<open>train_loader\<close>: the early return
  stands between the accuracy and the gradient step.
\<close>

fun train_loop ::
  "('x, 'o, 'l, 'p, 'g, 's, 'r) net \<Rightarrow> ('x, 'r) loader \<Rightarrow> nat \<Rightarrow> pyfloat \<Rightarrow> 'x batch list
     \<Rightarrow> ('p, 'g, 's, 'r) world \<Rightarrow> error + ('p, 'g, 's, 'r) world" where
  "train_loop N evaluation_loader net_id threshold [] w = Inr w"
| "train_loop N evaluation_loader net_id threshold (b # rest) w =
     (case check_accuracy N evaluation_loader b w of
        Inl e \<Rightarrow> Inl e
      | Inr (acc, loss, w1) \<Rightarrow>
          if float_ge acc threshold
          then Inr (w1\<lparr>stdout := stdout w1 @ [Early_terminated net_id threshold acc]\<rparr>)
          else train_loop N evaluation_loader net_id threshold rest (gradient_step N loss w1))"

text \<open>
  \<open>train(model, device, train_loader, evaluation_loader, optimizer, epoch, id,
  threshold)\<close>: \<open>model.train()\<close>, then the loop. \<open>epoch\<close> is not read by the body;
  \<open>net_id\<close> is the source's \<open>id\<close>.
\<close>

definition train ::
  "('x, 'o, 'l, 'p, 'g, 's, 'r) net \<Rightarrow> ('x, 'r) loader \<Rightarrow> ('x, 'r) loader \<Rightarrow> nat \<Rightarrow> nat \<Rightarrow> pyfloat
     \<Rightarrow> ('p, 'g, 's, 'r) world \<Rightarrow> error + ('p, 'g, 's, 'r) world" where
  "train N train_loader evaluation_loader epoch net_id threshold w =
     (let w0 = w\<lparr>training := True\<rparr>;
          (batches, r) = train_loader (rng w0)
      in train_loop N evaluation_loader net_id threshold batches (w0\<lparr>rng := r\<rparr>))"

text \<open>The loop of \<open>evaluate\<close> over the batches of \<open>data_loader\<close>.\<close>

fun evaluate_loop ::
  "('x, 'o, 'l, 'p, 'g, 's, 'r) net \<Rightarrow> 'x batch list \<Rightarrow> real \<Rightarrow> nat \<Rightarrow> ('p, 'g, 's, 'r) world
     \<Rightarrow> error + ((real \<times> nat) \<times> ('p, 'g, 's, 'r) world)" where
  "evaluate_loop N [] test_loss correct w = Inr ((test_loss, correct), w)"
| "evaluate_loop N (b # rest) test_loss correct w =
     (let (output, r) = forward N (params w) (training w) (fst b) (rng w);
          w1 = w\<lparr>rng := r\<rparr>;
          test_loss' = float_add N test_loss (nll_loss_sum N output (snd b));
          pred = argmax N output
      in case count_correct pred (snd b) of
           Inl e \<Rightarrow> Inl e
         | Inr c \<Rightarrow> evaluate_loop N rest test_loss' (correct + c) w1)"

text \<open>
  \<open>evaluate(model, device, data_loader)\<close>: \<open>model.eval()\<close>, the loop, and the two
  quotients by \<open>len(data_loader.dataset)\<close>, here \<open>dataset_len\<close>. The result is
  \<open>(accuracy, mean loss)\<close>.
\<close>

definition evaluate ::
  "('x, 'o, 'l, 'p, 'g, 's, 'r) net \<Rightarrow> ('x, 'r) loader \<Rightarrow> nat \<Rightarrow> ('p, 'g, 's, 'r) world
     \<Rightarrow> error + ((real \<times> real) \<times> ('p, 'g, 's, 'r) world)" where
  "evaluate N data_loader dataset_len w =
     (let w0 = w\<lparr>training := False\<rparr>;
          (batches, r) = data_loader (rng w0)
      in case evaluate_loop N batches 0 0 (w0\<lparr>rng := r\<rparr>) of
           Inl e \<Rightarrow> Inl e
         | Inr ((test_loss, correct), w1) \<Rightarrow>
             if dataset_len = 0 then Inl ZeroDivisionError
             else Inr ((py_truediv correct dataset_len, float_div N test_loss dataset_len), w1))"

section \<open>run.py: the ensemble driver\<close>

text \<open>
  \<open>args.training_threshold\<close>: the option has \<open>nargs='+'\<close>, so values given on the
  command line arrive as a non-empty list of floats; when the option is absent the value
  is the default, the float \<open>math.inf\<close> itself.
\<close>

datatype threshold_arg = Scalar pyfloat | Sequence "pyfloat list"

definition parse_training_threshold :: "pyfloat list option \<Rightarrow> threshold_arg" where
  "parse_training_threshold given =
     (case given of None \<Rightarrow> Scalar PInf | Some ts \<Rightarrow> Sequence ts)"

text \<open>
  Line 127: \<open>args.training_threshold[-1] if it >= len(args.training_threshold) else
  args.training_threshold[it]\<close>. The condition is evaluated first; \<open>len\<close> of a float
  raises TypeError, and \<open>[-1]\<close> of an empty list raises IndexError.
\<close>

definition training_threshold_for :: "threshold_arg \<Rightarrow> nat \<Rightarrow> error + pyfloat" where
  "training_threshold_for a it =
     (case a of
        Scalar x \<Rightarrow> Inl TypeError
      | Sequence ts \<Rightarrow>
          if length ts \<le> it then (if ts = [] then Inl IndexError else Inr (last ts))
          else Inr (ts ! it))"

text \<open>
  \<open>scheduler.step()\<close> of \<open>StepLR(optimizer, step_size=1, gamma)\<close>: the epoch counter
  advances and, the step size being 1, the learning rate is multiplied by \<open>gamma\<close>.
\<close>

definition scheduler_step :: "real \<Rightarrow> ('p, 'g, 's, 'r) world \<Rightarrow> ('p, 'g, 's, 'r) world" where
  "scheduler_step gamma w = w\<lparr>last_epoch := Suc (last_epoch w), lr := lr w * gamma\<rparr>"

text \<open>
  Lines 128 to 130: \<open>for epoch in range(1, args.epochs + 1): train(...);
  scheduler.step()\<close>. An exception in \<open>train\<close> leaves the loop.
\<close>

fun run_epochs ::
  "('x, 'o, 'l, 'p, 'g, 's, 'r) net \<Rightarrow> ('x, 'r) loader \<Rightarrow> ('x, 'r) loader \<Rightarrow> real \<Rightarrow> nat \<Rightarrow> pyfloat
     \<Rightarrow> nat list \<Rightarrow> ('p, 'g, 's, 'r) world \<Rightarrow> error + ('p, 'g, 's, 'r) world" where
  "run_epochs N train_loader evaluation_loader gamma it threshold [] w = Inr w"
| "run_epochs N train_loader evaluation_loader gamma it threshold (epoch # epochs) w =
     (case train N train_loader evaluation_loader epoch it threshold w of
        Inl e \<Rightarrow> Inl e
      | Inr w1 \<Rightarrow>
          run_epochs N train_loader evaluation_loader gamma it threshold epochs
            (scheduler_step gamma w1))"

text \<open>Lines 127 to 130 for the network \<open>it\<close>: the threshold, then the epochs.\<close>

definition train_network ::
  "('x, 'o, 'l, 'p, 'g, 's, 'r) net \<Rightarrow> ('x, 'r) loader \<Rightarrow> ('x, 'r) loader \<Rightarrow> real \<Rightarrow> threshold_arg
     \<Rightarrow> nat \<Rightarrow> nat \<Rightarrow> ('p, 'g, 's, 'r) world \<Rightarrow> error + ('p, 'g, 's, 'r) world" where
  "train_network N train_loader evaluation_loader gamma training_threshold epochs it w =
     (case training_threshold_for training_threshold it of
        Inl e \<Rightarrow> Inl e
      | Inr threshold \<Rightarrow>
          run_epochs N train_loader evaluation_loader gamma it threshold [1..<epochs + 1] w)"

text \<open>
  The datasets of \<open>main\<close> are sets of row numbers of the one \<open>CSVDataset\<close>: the
  dataset itself is \<open>[0..<n]\<close>, a \<open>Subset\<close> is the list of its indices.
  \<open>randperm r n\<close> is \<open>torch.randperm(n)\<close> on the random generator \<open>r\<close>.

  \<open>torch.utils.data.random_split(dataset, lengths)\<close>: the lengths must add up to the
  dataset's length (ValueError otherwise; a negative length is outside the library's
  contract and raises here too); the subsets are consecutive slices of one permutation.
\<close>

fun slices :: "nat list \<Rightarrow> 'a list \<Rightarrow> 'a list list" where
  "slices [] xs = []"
| "slices (l # ls) xs = take l xs # slices ls (drop l xs)"

definition random_split ::
  "('r \<Rightarrow> nat \<Rightarrow> nat list \<times> 'r) \<Rightarrow> nat \<Rightarrow> int list \<Rightarrow> 'r \<Rightarrow> error + (nat list list \<times> 'r)" where
  "random_split randperm n lengths r =
     (if sum_list lengths \<noteq> int n \<or> (\<exists>l \<in> set lengths. l < 0) then Inl ValueError
      else (let (perm, r') = randperm r n in Inr (slices (map nat lengths) perm, r')))"

text \<open>
  One pass over \<open>DataLoader(dataset, batch_size, shuffle=True)\<close>: the indices in a
  fresh random order, cut into batches of \<open>batch_size\<close>, the last one shorter when
  the sizes do not divide (\<open>drop_last\<close> is off).
\<close>

function chunks :: "nat \<Rightarrow> 'a list \<Rightarrow> 'a list list" where
  "chunks k xs = (if k = 0 \<or> xs = [] then [] else take k xs # chunks k (drop k xs))"
  by pat_completeness auto
termination
  by (relation "measure (\<lambda>(k, xs). length xs)") auto

declare chunks.simps [simp del]

definition DataLoader_iter ::
  "('r \<Rightarrow> nat \<Rightarrow> nat list \<times> 'r) \<Rightarrow> nat list \<Rightarrow> nat \<Rightarrow> 'r \<Rightarrow> nat list list \<times> 'r" where
  "DataLoader_iter randperm dataset batch_size r =
     (let (perm, r') = randperm r (length dataset)
      in (chunks batch_size (map (\<lambda>k. dataset ! k) perm), r'))"

text \<open>
  Lines 111 to 115: \<open>dataset1, dataset2 = random_split(dataset, [len - data_samples,
  data_samples])\<close>, then the three loaders. The training and the evaluation loader are
  built on \<open>dataset\<close>, the landscape loader on \<open>dataset2\<close>; \<open>dataset1\<close> is not
  used again.
\<close>

record 'r loaders =
  train_indices :: "'r \<Rightarrow> nat list list \<times> 'r"
  evaluation_indices :: "'r \<Rightarrow> nat list list \<times> 'r"
  landscape_indices :: "'r \<Rightarrow> nat list list \<times> 'r"

definition main_loaders ::
  "('r \<Rightarrow> nat \<Rightarrow> nat list \<times> 'r) \<Rightarrow> nat \<Rightarrow> nat \<Rightarrow> nat \<Rightarrow> 'r \<Rightarrow> error + ('r loaders \<times> 'r)" where
  "main_loaders randperm n batch_size data_samples r =
     (let dataset = [0..<n] in
      case random_split randperm n [int n - int data_samples, int data_samples] r of
        Inl e \<Rightarrow> Inl e
      | Inr (parts, r') \<Rightarrow>
          (let dataset1 = parts ! 0; dataset2 = parts ! 1
           in Inr (\<lparr>train_indices = DataLoader_iter randperm dataset batch_size,
                     evaluation_indices = DataLoader_iter randperm dataset data_samples,
                     landscape_indices = DataLoader_iter randperm dataset2 data_samples\<rparr>, r')))"

text \<open>
  Line 133, \<open>next(iter(landscape_loader))\<close>: the first batch of a pass, StopIteration
  when there is none.
\<close>

definition next_iter :: "('r \<Rightarrow> 'a list \<times> 'r) \<Rightarrow> 'r \<Rightarrow> error + ('a \<times> 'r)" where
  "next_iter loader r =
     (case loader r of ([], r') \<Rightarrow> Inl StopIteration | (b # _, r') \<Rightarrow> Inr (b, r'))"

section \<open>The landscape average\<close>

text \<open>
  A landscape is indexed by layer and by homology dimension; each entry is a curve, the
  pair of its x-grid and its y-values (\<open>main\<close> reads the y-values as \<open>dim[1]\<close>).
\<close>

type_synonym curve = "real list \<times> real list"

type_synonym landscape = "curve list list"

text \<open>
  The shape of a landscape: per layer and per dimension the length of the grid.
\<close>

definition shape :: "landscape \<Rightarrow> nat list list" where
  "shape l = map (map (\<lambda>c. length (snd c))) l"

definition same_shapes :: "landscape list \<Rightarrow> bool" where
  "same_shapes ls = list_all (\<lambda>l. shape l = shape (hd ls)) ls"

text \<open>The elementwise arithmetic mean of lists of one length \<open>n\<close>.\<close>

definition mean_ys :: "nat \<Rightarrow> real list list \<Rightarrow> real list" where
  "mean_ys n yss = map (\<lambda>k. sum_list (map (\<lambda>ys. ys ! k) yss) / real (length yss)) [0..<n]"

text \<open>
  Modelled from the spec: \<open>average_across_networks\<close> is defined in the module
  \<open>landscape\<close>, which is not among the sources. In the specification's words: for
  every (layer, dimension) pair the output curve's y-values are the elementwise
  arithmetic mean of the corresponding y-values across all networks; the x-grid is shared
  and unchanged; it fails with a ShapeMismatchError if any two networks produce
  landscapes of differing (layer count, dimension count, grid length). The specification
  does not say what the average of no network is; here it is a ValueError.
\<close>

definition average_across_networks :: "landscape list \<Rightarrow> error + landscape" where
  "average_across_networks ls =
     (case ls of
        [] \<Rightarrow> Inl ValueError
      | first # _ \<Rightarrow>
          if same_shapes ls then
            Inr (map (\<lambda>i. map (\<lambda>j. (fst (first ! i ! j),
                                     mean_ys (length (snd (first ! i ! j)))
                                       (map (\<lambda>l. snd (l ! i ! j)) ls)))
                           [0..<length (first ! i)])
                     [0..<length first])
          else Inl ShapeMismatchError)"

section \<open>run.py: writing the result\<close>

text \<open>
  The part of the file system \<open>main\<close> touches: a path names a directory or a file,
  and a file written by \<open>np.savetxt\<close> from a one-dimensional array holds one value
  per line, that is, one column.
\<close>

datatype node = Dir | File "real list"

type_synonym filesystem = "string \<rightharpoonup> node"

text \<open>
  \<open>os.path.exists\<close> of a path with a trailing slash holds when a directory is
  there; \<open>os.mkdir\<close> fails when the name is taken.
\<close>

definition path_exists :: "filesystem \<Rightarrow> string \<Rightarrow> bool" where
  "path_exists fs dir = (fs dir = Some Dir)"

definition mkdir :: "string \<Rightarrow> filesystem \<Rightarrow> error + filesystem" where
  "mkdir dir fs = (if fs dir \<noteq> None then Inl OSError else Inr (fs(dir \<mapsto> Dir)))"

text \<open>
  \<open>np.savetxt(dir + name, ys, delimiter=',')\<close> opens the file for writing, which
  fails when \<open>dir\<close> is not a directory or the path names a directory, and replaces
  the file's content by the values.
\<close>

definition savetxt :: "string \<Rightarrow> string \<Rightarrow> real list \<Rightarrow> filesystem \<Rightarrow> error + filesystem" where
  "savetxt dir name ys fs =
     (if fs dir \<noteq> Some Dir \<or> fs (dir @ name) = Some Dir then Inl OSError
      else Inr (fs(dir @ name \<mapsto> File ys)))"

text \<open>\<open>'{}'.format(n)\<close> of a non-negative int: its decimal digits.\<close>

definition digit :: "nat \<Rightarrow> char" where
  "digit d = char_of (48 + d)"

function str_nat :: "nat \<Rightarrow> string" where
  "str_nat n = (if n < 10 then [digit n] else str_nat (n div 10) @ [digit (n mod 10)])"
  by pat_completeness auto
termination
  by (relation "measure (\<lambda>n. n)") auto

declare str_nat.simps [simp del]

definition landscapes_csv :: string where
  "landscapes_csv = ''./landscapes_csv/''"

definition csv_name :: "nat \<Rightarrow> nat \<Rightarrow> string" where
  "csv_name layer_id dim_id = ''layer'' @ str_nat layer_id @ ''dim'' @ str_nat dim_id @ ''.csv''"

definition csv_path :: "nat \<Rightarrow> nat \<Rightarrow> string" where
  "csv_path layer_id dim_id = landscapes_csv @ csv_name layer_id dim_id"

text \<open>
  Lines 143 to 145: the two loops \<open>for layer_id, layer in enumerate(landscape_averages)\<close>
  and \<open>for dim_id, dim in enumerate(layer)\<close>, each with the counter of
  \<open>enumerate\<close> as an argument; \<open>dim_curve\<close> is the source's \<open>dim\<close>.
\<close>

fun write_dims :: "nat \<Rightarrow> nat \<Rightarrow> curve list \<Rightarrow> filesystem \<Rightarrow> error + filesystem" where
  "write_dims layer_id dim_id [] fs = Inr fs"
| "write_dims layer_id dim_id (dim_curve # rest) fs =
     (case savetxt landscapes_csv (csv_name layer_id dim_id) (snd dim_curve) fs of
        Inl e \<Rightarrow> Inl e
      | Inr fs' \<Rightarrow> write_dims layer_id (Suc dim_id) rest fs')"

fun write_layers :: "nat \<Rightarrow> landscape \<Rightarrow> filesystem \<Rightarrow> error + filesystem" where
  "write_layers layer_id [] fs = Inr fs"
| "write_layers layer_id (layer # rest) fs =
     (case write_dims layer_id 0 layer fs of
        Inl e \<Rightarrow> Inl e
      | Inr fs' \<Rightarrow> write_layers (Suc layer_id) rest fs')"

text \<open>
  Lines 140 to 145. \<open>save_csv\<close> is the truth value of \<open>args.save_csv\<close>, which is
  \<open>True\<close> unless the option is given.
\<close>

definition save_csv_files :: "bool \<Rightarrow> landscape \<Rightarrow> filesystem \<Rightarrow> error + filesystem" where
  "save_csv_files save_csv landscape_averages fs =
     (if save_csv then
        (case (if \<not> path_exists fs landscapes_csv then mkdir landscapes_csv fs else Inr fs) of
           Inl e \<Rightarrow> Inl e
         | Inr fs' \<Rightarrow> write_layers 0 landscape_averages fs')
      else Inr fs)"

section \<open>Training without the early stop\<close>

text \<open>
  What one batch does to the state when the early-stop test does not fire, written from
  the collaborators alone, in the specification's words: compute the forward pass and the
  cross-entropy loss, draw one fresh batch from the evaluation set and compute its
  accuracy (which may fail), then apply backpropagation and the optimizer's parameter
  update. \<open>train_loop\<close> is compared with it below.
\<close>

definition trained_on ::
  "('x, 'o, 'l, 'p, 'g, 's, 'r) net \<Rightarrow> ('x, 'r) loader \<Rightarrow> 'x batch \<Rightarrow> ('p, 'g, 's, 'r) world
     \<Rightarrow> error + ('p, 'g, 's, 'r) world" where
  "trained_on N evaluation_loader b w =
     (let (output, r1) = forward N (params w) (training w) (fst b) (rng w);
          (eval_batches, r2) = evaluation_loader r1
      in case eval_batches of
           [] \<Rightarrow> Inl StopIteration
         | eval_data # _ \<Rightarrow>
             (let (eval_output, r3) = forward N (params w) (training w) (fst eval_data) r2
              in case count_correct (argmax N eval_output) (snd eval_data) of
                   Inl e \<Rightarrow> Inl e
                 | Inr correct \<Rightarrow>
                     if fst eval_data = [] then Inl ZeroDivisionError
                     else
                       (let g = backward N (cross_entropy N output (snd b)) (zero_grad N (grad w));
                            (p, s) = adadelta_step N (lr w) (opt_state w) (params w) g
                        in Inr (w\<lparr>params := p, grad := g, opt_state := s,
                                  step_count := Suc (step_count w), rng := r3\<rparr>))))"

text \<open>Every batch of a pass, and every pass of every epoch, trained in this way.\<close>

fun trained_on_all ::
  "('x, 'o, 'l, 'p, 'g, 's, 'r) net \<Rightarrow> ('x, 'r) loader \<Rightarrow> 'x batch list \<Rightarrow> ('p, 'g, 's, 'r) world
     \<Rightarrow> error + ('p, 'g, 's, 'r) world" where
  "trained_on_all N evaluation_loader [] w = Inr w"
| "trained_on_all N evaluation_loader (b # rest) w =
     (case trained_on N evaluation_loader b w of
        Inl e \<Rightarrow> Inl e
      | Inr w' \<Rightarrow> trained_on_all N evaluation_loader rest w')"

fun trained_epochs ::
  "('x, 'o, 'l, 'p, 'g, 's, 'r) net \<Rightarrow> ('x, 'r) loader \<Rightarrow> ('x, 'r) loader \<Rightarrow> real \<Rightarrow> nat list
     \<Rightarrow> ('p, 'g, 's, 'r) world \<Rightarrow> error + ('p, 'g, 's, 'r) world" where
  "trained_epochs N train_loader evaluation_loader gamma [] w = Inr w"
| "trained_epochs N train_loader evaluation_loader gamma (epoch # epochs) w =
     (let (batches, r) = train_loader (rng w)
      in case trained_on_all N evaluation_loader batches (w\<lparr>training := True, rng := r\<rparr>) of
           Inl e \<Rightarrow> Inl e
         | Inr w' \<Rightarrow>
             trained_epochs N train_loader evaluation_loader gamma epochs
               (w'\<lparr>last_epoch := Suc (last_epoch w'), lr := lr w' * gamma\<rparr>))"

section \<open>A small instance\<close>

text \<open>
  An instance of the collaborators on which the theorems below are run: inputs and
  parameters are integers, the network predicts class 1 for an input at or above its
  parameter, every loss has gradient 1 and the optimizer adds the gradient.
\<close>

definition example_net :: "(int, int list, int, int, int, unit, nat) net" where
  "example_net =
     \<lparr>forward = (\<lambda>p tr xs r. (map (\<lambda>x. if p \<le> x then 1 else 0) xs, Suc r)),
      argmax = (\<lambda>out. out),
      cross_entropy = (\<lambda>out target. 1),
      nll_loss_sum = (\<lambda>out target. 0),
      backward = (\<lambda>loss g. g + loss),
      zero_grad = (\<lambda>g. 0),
      adadelta_step = (\<lambda>rate s p g. (p + g, s)),
      float_add = (\<lambda>a b. a + b),
      float_div = (\<lambda>a n. a / real n)\<rparr>"

definition example_train_loader :: "(int, nat) loader" where
  "example_train_loader r = ([([0, 1], [0, 1]), ([2], [1])], Suc r)"

definition example_evaluation_loader :: "(int, nat) loader" where
  "example_evaluation_loader r = ([([0, 1], [1, 1])], Suc r)"

text \<open>An evaluation batch of ten samples, nine of which the initial network gets right.\<close>

definition example_evaluation_loader_10 :: "(int, nat) loader" where
  "example_evaluation_loader_10 r =
     ([([0, 1, 1, 1, 1, 1, 1, 1, 1, 1], [1, 1, 1, 1, 1, 1, 1, 1, 1, 1])], Suc r)"

definition example_world :: "(int, int, unit, nat) world" where
  "example_world =
     \<lparr>params = 1, grad = 0, training = False, opt_state = (), lr = 1, step_count = 0,
      last_epoch = 0, rng = 0, stdout = []\<rparr>"

text \<open>
  A reader of floats that knows four spellings, and the truncation of \<open>.long()\<close> on
  the reals.
\<close>

definition example_float :: "string \<Rightarrow> real option" where
  "example_float = map_of [(''0'', 0), (''1'', 1), (''2'', 2), (''0.5'', 1 / 2)]"

definition example_long :: "real \<Rightarrow> int" where
  "example_long x = (if 0 \<le> x then \<lfloor>x\<rfloor> else \<lceil>x\<rceil>)"

text \<open>A random generator that never shuffles: every permutation it draws is the identity.\<close>

definition example_randperm :: "unit \<Rightarrow> nat \<Rightarrow> nat list \<times> unit" where
  "example_randperm r n = ([0..<n], r)"

lemma cell_step_refl: "cell_step tf c c"
  by (simp add: cell_step_def)

lemma cell_step_trans: "cell_step tf a b \<Longrightarrow> cell_step tf b c \<Longrightarrow> cell_step tf a c"
  by (auto simp: cell_step_def)

lemma convert_cells_sound:
  "convert_cells tf js row = Inr row' \<Longrightarrow>
     length row' = length row \<and> (\<forall>k < length row. cell_step tf (row ! k) (row' ! k))"
proof (induction js arbitrary: row)
  case Nil
  then show ?case by (simp add: cell_step_refl)
next
  case (Cons j js)
  from Cons.prems have j: "j < length row"
    by (simp split: if_splits)
  from Cons.prems j obtain v where v: "py_float tf (row ! j) = Some v"
    and rest: "convert_cells tf js (row[j := Num v]) = Inr row'"
    by (auto split: option.splits)
  from Cons.IH [OF rest] have len: "length row' = length row"
    and st: "\<forall>k < length row. cell_step tf ((row[j := Num v]) ! k) (row' ! k)"
    by simp_all
  have "cell_step tf (row ! k) (row' ! k)" if k: "k < length row" for k
  proof -
    have "cell_step tf (row ! k) ((row[j := Num v]) ! k)"
      using v k by (cases "k = j") (simp_all add: cell_step_def)
    with st k show ?thesis by (blast intro: cell_step_trans)
  qed
  with len show ?case by simp
qed

lemma convert_cells_done:
  "convert_cells tf js row = Inr row' \<Longrightarrow> j \<in> set js \<Longrightarrow> j < length row \<and> is_Num (row' ! j)"
proof (induction js arbitrary: row)
  case Nil
  then show ?case by simp
next
  case (Cons i js)
  from Cons.prems have i: "i < length row"
    by (simp split: if_splits)
  from Cons.prems i obtain v where v: "py_float tf (row ! i) = Some v"
    and rest: "convert_cells tf js (row[i := Num v]) = Inr row'"
    by (auto split: option.splits)
  show ?case
  proof (cases "j \<in> set js")
    case True
    with Cons.IH [OF rest] show ?thesis by simp
  next
    case False
    with Cons.prems have ji: "j = i" by simp
    from convert_cells_sound [OF rest] i
    have "cell_step tf ((row[i := Num v]) ! i) (row' ! i)" by auto
    with i have "row' ! i = Num v" by (auto simp: cell_step_def)
    with i ji show ?thesis by (simp add: is_Num_def)
  qed
qed

lemma convert_cells_ok:
  "\<forall>j \<in> set js. j < length row \<and> py_float tf (row ! j) \<noteq> None \<Longrightarrow> distinct js \<Longrightarrow>
   \<exists>row'. convert_cells tf js row = Inr row' \<and> length row' = length row
     \<and> (\<forall>k < length row. row' ! k = (if k \<in> set js then Num (the (py_float tf (row ! k))) else row ! k))"
proof (induction js arbitrary: row)
  case Nil
  then show ?case by simp
next
  case (Cons j js)
  from Cons.prems obtain v where j: "j < length row" and v: "py_float tf (row ! j) = Some v"
    by auto
  let ?row = "row[j := Num v]"
  have pre: "\<forall>i \<in> set js. i < length ?row \<and> py_float tf (?row ! i) \<noteq> None"
    using Cons.prems by (auto simp: nth_list_update)
  from Cons.prems have d: "distinct js" and nj: "j \<notin> set js" by simp_all
  from Cons.IH [OF pre d] obtain row' where r: "convert_cells tf js ?row = Inr row'"
    and len: "length row' = length row"
    and nth: "\<forall>k < length row. row' ! k = (if k \<in> set js then Num (the (py_float tf (?row ! k))) else ?row ! k)"
    by auto
  have "convert_cells tf (j # js) row = Inr row'"
    using j v r by simp
  moreover have "\<forall>k < length row. row' ! k = (if k \<in> set (j # js) then Num (the (py_float tf (row ! k))) else row ! k)"
    using nth nj j v by (auto simp: nth_list_update)
  ultimately show ?case using len by blast
qed



lemma row_step_refl: "row_step tf r r"
  by (simp add: row_step_def cell_step_refl)

lemma row_step_trans: "row_step tf a b \<Longrightarrow> row_step tf b c \<Longrightarrow> row_step tf a c"
  unfolding row_step_def by (auto intro: cell_step_trans)

lemma convert_cells_row_step: "convert_cells tf js row = Inr row' \<Longrightarrow> row_step tf row row'"
  unfolding row_step_def by (rule convert_cells_sound)

lemma convert_rows_sound:
  "convert_rows tf is csv = Inr csv' \<Longrightarrow>
     length csv' = length csv \<and> (\<forall>i < length csv. row_step tf (csv ! i) (csv' ! i))"
proof (induction "is" arbitrary: csv)
  case Nil
  then show ?case by (simp add: row_step_refl)
next
  case (Cons i "is")
  show ?case
  proof (cases "i = 0")
    case True
    with Cons.prems have "convert_rows tf is csv = Inr csv'"
      by (simp split: if_splits)
    from Cons.IH [OF this] show ?thesis .
  next
    case False
    with Cons.prems obtain row where row: "convert_cells tf [0..<length (csv ! 1)] (csv ! i) = Inr row"
      and rest: "convert_rows tf is (csv[i := row]) = Inr csv'"
      by (auto split: if_splits sum.splits)
    from Cons.IH [OF rest] have len: "length csv' = length csv"
      and st: "\<forall>k < length csv. row_step tf ((csv[i := row]) ! k) (csv' ! k)"
      by simp_all
    have "row_step tf (csv ! k) (csv' ! k)" if k: "k < length csv" for k
    proof -
      have "row_step tf (csv ! k) ((csv[i := row]) ! k)"
        using k convert_cells_row_step [OF row]
        by (cases "k = i") (simp_all add: row_step_refl)
      with st k show ?thesis by (blast intro: row_step_trans)
    qed
    with len show ?thesis by simp
  qed
qed

lemma convert_rows_needs_two:
  "convert_rows tf is csv = Inr csv' \<Longrightarrow> is \<noteq> [] \<Longrightarrow> 2 \<le> length csv"
  by (cases "is") (auto split: if_splits)

lemma cell_step_Str_Num:
  "cell_step tf (Str s) c \<Longrightarrow> is_Num c \<Longrightarrow> tf s \<noteq> None"
  by (auto simp: cell_step_def is_Num_def)

lemma torch_tensor_Inr:
  "torch_tensor rows = Inr t \<Longrightarrow>
     (\<forall>r \<in> set rows. length r = length (hd rows) \<and> (\<forall>c \<in> set r. is_Num c))
     \<and> t = map (map (\<lambda>c. the (the_Num c))) rows"
  by (auto simp: torch_tensor_def split: if_splits)

lemma CSVDataset_init_Inr:
  fixes tf :: "string \<Rightarrow> 'f option"
  assumes ok: "CSVDataset_init tf f32 file_rows = Inr ds" and ne: "file_rows \<noteq> []"
  shows "2 \<le> length file_rows
    \<and> (\<forall>r \<in> set (tl file_rows). length r = length (file_rows ! 1) \<and> (\<forall>c \<in> set r. tf c \<noteq> None))"
proof -
  let ?csv = "map (map Str) file_rows :: 'f cell list list"
  from ok obtain csv' t where conv: "convert_rows tf [0..<length ?csv] ?csv = Inr csv'"
    and tens: "torch_tensor (drop 1 csv') = Inr t"
    by (auto simp: CSVDataset_init_def Let_def split: sum.splits)
  from ne have "[0..<length ?csv] \<noteq> []" by simp
  from convert_rows_needs_two [OF conv this] have two: "2 \<le> length file_rows" by simp
  from convert_rows_sound [OF conv] have len: "length csv' = length file_rows"
    and st: "\<forall>i < length file_rows. row_step tf (?csv ! i) (csv' ! i)"
    by simp_all
  from two len have hd: "hd (drop 1 csv') = csv' ! 1"
    by (simp add: hd_drop_conv_nth)
  have "length r = length (file_rows ! 1) \<and> (\<forall>c \<in> set r. tf c \<noteq> None)"
    if r: "r \<in> set (tl file_rows)" for r
  proof -
    from r obtain i where i: "i < length (tl file_rows)" and ri: "r = tl file_rows ! i"
      by (auto simp: in_set_conv_nth)
    from i have si: "Suc i < length file_rows" by simp
    with ri have rS: "r = file_rows ! Suc i" by (simp add: nth_tl)
    from si len have mem: "csv' ! Suc i \<in> set (drop 1 csv')"
      by (auto simp: in_set_conv_nth intro!: exI [of _ i])
    from torch_tensor_Inr [OF tens] mem hd
    have l': "length (csv' ! Suc i) = length (csv' ! 1)" and num: "\<forall>c \<in> set (csv' ! Suc i). is_Num c"
      by auto
    from st si have rs: "row_step tf (?csv ! Suc i) (csv' ! Suc i)" by blast
    from st two have rs1: "row_step tf (?csv ! 1) (csv' ! 1)" by simp
    from rs si rS have lr: "length (csv' ! Suc i) = length r"
      by (simp add: row_step_def)
    from rs1 two have l1: "length (csv' ! 1) = length (file_rows ! 1)"
      by (simp add: row_step_def)
    have "tf c \<noteq> None" if c: "c \<in> set r" for c
    proof -
      from c obtain k where k: "k < length r" and ck: "c = r ! k"
        by (auto simp: in_set_conv_nth)
      from rs si rS k have "cell_step tf (Str (r ! k)) (csv' ! Suc i ! k)"
        by (simp add: row_step_def)
      moreover from num k lr have "is_Num (csv' ! Suc i ! k)" by simp
      ultimately show ?thesis using ck by (blast dest: cell_step_Str_Num)
    qed
    with l' lr l1 show ?thesis by simp
  qed
  with two show ?thesis by blast
qed


lemma convert_cells_full:
  assumes "\<forall>c \<in> set row. py_float tf c \<noteq> None"
  shows "convert_cells tf [0..<length row] row = Inr (map (\<lambda>c. Num (the (py_float tf c))) row)"
proof -
  have pre: "\<forall>j \<in> set [0..<length row]. j < length row \<and> py_float tf (row ! j) \<noteq> None"
    using assms by simp
  from convert_cells_ok [OF pre] obtain row' where r: "convert_cells tf [0..<length row] row = Inr row'"
    and len: "length row' = length row"
    and nth: "\<forall>k < length row. row' ! k = (if k \<in> set [0..<length row] then Num (the (py_float tf (row ! k))) else row ! k)"
    by auto
  have "row' = map (\<lambda>c. Num (the (py_float tf c))) row"
    using len nth by (intro nth_equalityI) simp_all
  with r show ?thesis by simp
qed

lemma convert_rows_ok:
  assumes "2 \<le> length csv" and "distinct is"
    and "\<forall>i \<in> set is. i < length csv \<and>
           (i \<noteq> 0 \<longrightarrow> length (csv ! i) = length (csv ! 1) \<and> (\<forall>c \<in> set (csv ! i). py_float tf c \<noteq> None))"
  shows "\<exists>csv'. convert_rows tf is csv = Inr csv' \<and> length csv' = length csv
     \<and> (\<forall>i < length csv. csv' ! i =
           (if i \<in> set is \<and> i \<noteq> 0 then map (\<lambda>c. Num (the (py_float tf c))) (csv ! i) else csv ! i))"
  using assms
proof (induction "is" arbitrary: csv)
  case Nil
  then show ?case by simp
next
  case (Cons i "is")
  from Cons.prems have two: "2 \<le> length csv" and d: "distinct is" and ni: "i \<notin> set is"
    and il: "i < length csv"
    by simp_all
  show ?case
  proof (cases "i = 0")
    case True
    have pre: "\<forall>i \<in> set is. i < length csv \<and>
           (i \<noteq> 0 \<longrightarrow> length (csv ! i) = length (csv ! 1) \<and> (\<forall>c \<in> set (csv ! i). py_float tf c \<noteq> None))"
      using Cons.prems by simp
    from Cons.IH [OF two d pre] obtain csv' where r: "convert_rows tf is csv = Inr csv'"
      and len: "length csv' = length csv"
      and nth: "\<forall>k < length csv. csv' ! k =
           (if k \<in> set is \<and> k \<noteq> 0 then map (\<lambda>c. Num (the (py_float tf c))) (csv ! k) else csv ! k)"
      by auto
    have "convert_rows tf (i # is) csv = Inr csv'"
      using True two r by simp
    moreover have "\<forall>k < length csv. csv' ! k =
           (if k \<in> set (i # is) \<and> k \<noteq> 0 then map (\<lambda>c. Num (the (py_float tf c))) (csv ! k) else csv ! k)"
      using nth True by auto
    ultimately show ?thesis using len by blast
  next
    case False
    let ?row = "map (\<lambda>c. Num (the (py_float tf c))) (csv ! i)"
    let ?csv = "csv[i := ?row]"
    from Cons.prems False have li: "length (csv ! i) = length (csv ! 1)"
      and ci: "\<forall>c \<in> set (csv ! i). py_float tf c \<noteq> None"
      by simp_all
    from convert_cells_full [OF ci] li
    have cc: "convert_cells tf [0..<length (csv ! 1)] (csv ! i) = Inr ?row" by simp
    have l1: "length (?csv ! 1) = length (csv ! 1)"
      using two il by (cases "i = 1") simp_all
    have pre: "\<forall>k \<in> set is. k < length ?csv \<and>
           (k \<noteq> 0 \<longrightarrow> length (?csv ! k) = length (?csv ! 1) \<and> (\<forall>c \<in> set (?csv ! k). py_float tf c \<noteq> None))"
    proof
      fix k assume k: "k \<in> set is"
      with ni have "k \<noteq> i" by blast
      then have "?csv ! k = csv ! k" by simp
      with k Cons.prems l1 show "k < length ?csv \<and>
           (k \<noteq> 0 \<longrightarrow> length (?csv ! k) = length (?csv ! 1) \<and> (\<forall>c \<in> set (?csv ! k). py_float tf c \<noteq> None))"
        by simp
    qed
    have two': "2 \<le> length ?csv" using two by simp
    from Cons.IH [OF two' d pre] obtain csv' where r: "convert_rows tf is ?csv = Inr csv'"
      and len: "length csv' = length csv"
      and nth: "\<forall>k < length csv. csv' ! k =
           (if k \<in> set is \<and> k \<noteq> 0 then map (\<lambda>c. Num (the (py_float tf c))) (?csv ! k) else ?csv ! k)"
      by auto
    have "convert_rows tf (i # is) csv = Inr csv'"
      using False two cc r by simp
    moreover have "\<forall>k < length csv. csv' ! k =
           (if k \<in> set (i # is) \<and> k \<noteq> 0 then map (\<lambda>c. Num (the (py_float tf c))) (csv ! k) else csv ! k)"
    proof (intro allI impI)
      fix k assume k: "k < length csv"
      show "csv' ! k =
           (if k \<in> set (i # is) \<and> k \<noteq> 0 then map (\<lambda>c. Num (the (py_float tf c))) (csv ! k) else csv ! k)"
      proof (cases "k = i")
        case True
        with nth k ni il False show ?thesis by simp
      next
        case ki: False
        with nth k show ?thesis by simp
      qed
    qed
    ultimately show ?thesis using len by blast
  qed
qed

lemma CSVDataset_init_data:
  fixes tf :: "string \<Rightarrow> 'f option"
  assumes two: "2 \<le> length file_rows"
    and un: "\<forall>r \<in> set (tl file_rows). length r = length (file_rows ! 1)"
    and num: "\<forall>r \<in> set (tl file_rows). \<forall>c \<in> set r. tf c \<noteq> None"
  shows "CSVDataset_init tf f32 file_rows = Inr (map (map (\<lambda>s. f32 (the (tf s)))) (tl file_rows))"
proof -
  let ?csv = "map (map Str) file_rows :: 'f cell list list"
  let ?w = "length (file_rows ! 1)"
  have two': "2 \<le> length ?csv" using two by simp
  have mem_tl: "file_rows ! i \<in> set (tl file_rows)" if "i < length file_rows" "i \<noteq> 0" for i
  proof -
    from that obtain j where j: "i = Suc j" by (cases i) auto
    with that have "j < length (tl file_rows)" by simp
    then have "tl file_rows ! j \<in> set (tl file_rows)" by (rule nth_mem)
    with that j show ?thesis by (simp add: nth_tl)
  qed
  have pre: "\<forall>i \<in> set [0..<length ?csv]. i < length ?csv \<and>
           (i \<noteq> 0 \<longrightarrow> length (?csv ! i) = length (?csv ! 1) \<and> (\<forall>c \<in> set (?csv ! i). py_float tf c \<noteq> None))"
  proof
    fix i assume "i \<in> set [0..<length ?csv]"
    then have i: "i < length file_rows" by simp
    have wi: "length (file_rows ! i) = ?w" if "i \<noteq> 0"
      using mem_tl [OF i that] un by blast
    have "\<forall>c \<in> set (?csv ! i). py_float tf c \<noteq> None" if "i \<noteq> 0"
      using mem_tl [OF i that] num i by auto
    with i two wi show "i < length ?csv \<and>
           (i \<noteq> 0 \<longrightarrow> length (?csv ! i) = length (?csv ! 1) \<and> (\<forall>c \<in> set (?csv ! i). py_float tf c \<noteq> None))"
      by simp
  qed
  have d: "distinct [0..<length ?csv]" by simp
  from convert_rows_ok [OF two' d pre] obtain csv' where r: "convert_rows tf [0..<length ?csv] ?csv = Inr csv'"
    and len: "length csv' = length ?csv"
    and nth: "\<forall>i < length ?csv. csv' ! i =
           (if i \<in> set [0..<length ?csv] \<and> i \<noteq> 0 then map (\<lambda>c. Num (the (py_float tf c))) (?csv ! i) else ?csv ! i)"
    by blast
  let ?data = "map (map (\<lambda>s. Num (the (tf s)))) (tl file_rows)"
  have dr: "drop 1 csv' = ?data"
  proof (rule nth_equalityI)
    show "length (drop 1 csv') = length ?data" using len by simp
  next
    fix i assume "i < length (drop 1 csv')"
    with len have i: "Suc i < length file_rows" by simp
    with nth have "csv' ! Suc i = map (\<lambda>c. Num (the (py_float tf c))) (?csv ! Suc i)"
      by simp
    with i len show "drop 1 csv' ! i = ?data ! i"
      by (simp add: nth_tl comp_def)
  qed
  have tt: "torch_tensor ?data = Inr (map (map (\<lambda>s. the (tf s))) (tl file_rows))"
  proof -
    from two have h: "hd (tl file_rows) = file_rows ! 1"
      by (cases file_rows; cases "tl file_rows") auto
    from two have ne: "tl file_rows \<noteq> []"
      by (cases file_rows; cases "tl file_rows") auto
    have "\<forall>r \<in> set ?data. length r = length (hd ?data)"
      using un h ne by (simp add: hd_map)
    moreover have "\<forall>r \<in> set ?data. \<forall>c \<in> set r. is_Num c"
      by (auto simp: is_Num_def)
    ultimately show ?thesis
      by (simp add: torch_tensor_def comp_def)
  qed
  show ?thesis
    using r dr tt by (simp add: CSVDataset_init_def Let_def comp_def)
qed

lemma valid_data_iff:
  "valid_data tf file_rows \<longleftrightarrow>
     2 \<le> length file_rows
     \<and> (\<forall>r \<in> set (tl file_rows). length r = length (file_rows ! 1) \<and> (\<forall>c \<in> set r. tf c \<noteq> None))"
  by (simp add: valid_data_def list_all_iff)

lemma valid_csv_data: "valid_csv tf file_rows \<Longrightarrow> valid_data tf file_rows"
proof -
  assume v: "valid_csv tf file_rows"
  then have two: "2 \<le> length file_rows"
    and un: "\<forall>r \<in> set file_rows. length r = length (hd file_rows)"
    and num: "\<forall>r \<in> set (tl file_rows). \<forall>c \<in> set r. tf c \<noteq> None"
    by (simp_all add: valid_csv_def)
  from two un have "length (file_rows ! 1) = length (hd file_rows)" by simp
  moreover from two have "set (tl file_rows) \<subseteq> set file_rows"
    by (cases file_rows) auto
  ultimately show ?thesis
    using two un num by (auto simp: valid_data_iff)
qed

lemma CSVDataset_init_valid_data:
  assumes "valid_data tf file_rows"
  shows "CSVDataset_init tf f32 file_rows = Inr (map (map (\<lambda>s. f32 (the (tf s)))) (tl file_rows))"
  using assms by (intro CSVDataset_init_data) (simp_all add: valid_data_iff)

lemma CSVDataset_init_valid:
  assumes "valid_csv tf file_rows"
  shows "CSVDataset_init tf f32 file_rows = Inr (map (map (\<lambda>s. f32 (the (tf s)))) (tl file_rows))"
  by (rule CSVDataset_init_valid_data [OF valid_csv_data [OF assms]])

lemma CSVDataset_init_success_iff:
  "(\<exists>ds. CSVDataset_init tf f32 (header # data) = Inr ds) \<longleftrightarrow> valid_data tf (header # data)"
proof
  assume "\<exists>ds. CSVDataset_init tf f32 (header # data) = Inr ds"
  then obtain ds where ok: "CSVDataset_init tf f32 (header # data) = Inr ds" by blast
  have "header # data \<noteq> []" by simp
  from CSVDataset_init_Inr [OF ok this] show "valid_data tf (header # data)"
    by (simp add: valid_data_iff)
next
  assume "valid_data tf (header # data)"
  from CSVDataset_init_valid_data [OF this] show "\<exists>ds. CSVDataset_init tf f32 (header # data) = Inr ds"
    by blast
qed

lemma valid_data_header: "valid_data tf (header # data) = valid_data tf (header' # data)"
  by (simp add: valid_data_def)

subsection \<open>The claims about the loader\<close>

lemma CSVDataset_getitem_row:
  assumes "i < length ds" and "ds ! i \<noteq> []"
  shows "CSVDataset_getitem long ds (int i) = Inr (butlast (ds ! i), long (last (ds ! i)))"
  using assms by (simp add: CSVDataset_getitem_def Let_def)

text \<open>
  C4: for every valid CSV input (a header row and data rows after it, all data cells
  numeric, every row of the same width, which holds at least the label column) the
  loader returns a dataset whose length is the row count minus 1, and at every index
  \<open>i\<close> below that length \<open>__getitem__\<close> returns the pair of the feature vector,
  of length column count minus 1 and read from all columns of data row \<open>i\<close> but the
  last, and the label, the last column's value converted to an integer.
\<close>

theorem CSVDataset_valid:
  assumes "valid_csv to_float file_rows"
  shows "\<exists>ds. CSVDataset_init to_float f32 file_rows = Inr ds
    \<and> CSVDataset_len ds = length file_rows - 1
    \<and> (\<forall>i < CSVDataset_len ds. \<exists>features label.
          CSVDataset_getitem long ds (int i) = Inr (features, label)
          \<and> length features = length (hd file_rows) - 1
          \<and> features = map (\<lambda>s. f32 (the (to_float s))) (butlast (file_rows ! Suc i))
          \<and> label = long (f32 (the (to_float (last (file_rows ! Suc i))))))"
proof -
  let ?g = "\<lambda>s. f32 (the (to_float s))"
  let ?ds = "map (map ?g) (tl file_rows)"
  from assms have two: "2 \<le> length file_rows" and w: "0 < length (hd file_rows)"
    and un: "\<forall>r \<in> set file_rows. length r = length (hd file_rows)"
    by (simp_all add: valid_csv_def)
  have init: "CSVDataset_init to_float f32 file_rows = Inr ?ds"
    by (rule CSVDataset_init_valid [OF assms])
  have len: "CSVDataset_len ?ds = length file_rows - 1"
    by (simp add: CSVDataset_len_def)
  have item: "\<exists>features label.
          CSVDataset_getitem long ?ds (int i) = Inr (features, label)
          \<and> length features = length (hd file_rows) - 1
          \<and> features = map ?g (butlast (file_rows ! Suc i))
          \<and> label = long (?g (last (file_rows ! Suc i)))"
    if i: "i < CSVDataset_len ?ds" for i
  proof -
    from i have si: "Suc i < length file_rows" and il: "i < length ?ds"
      by (simp_all add: CSVDataset_len_def)
    let ?r = "file_rows ! Suc i"
    from si un have lr: "length ?r = length (hd file_rows)" by simp
    with w have ne: "?r \<noteq> []" by auto
    from si have row: "?ds ! i = map ?g ?r" by (simp add: nth_tl)
    with ne have ne': "?ds ! i \<noteq> []" by simp
    from CSVDataset_getitem_row [OF il ne', of long] row ne
    have "CSVDataset_getitem long ?ds (int i) = Inr (map ?g (butlast ?r), long (?g (last ?r)))"
      by (simp add: map_butlast last_map)
    with lr show ?thesis by simp
  qed
  from init len item show ?thesis by blast
qed

theorem CSVDataset_valid_witness:
  "valid_csv example_float [[''x'', ''y'', ''class''], [''0.5'', ''2'', ''1''], [''1'', ''0'', ''0'']]
   \<and> (\<exists>ds. CSVDataset_init example_float id [[''x'', ''y'', ''class''], [''0.5'', ''2'', ''1''], [''1'', ''0'', ''0'']] = Inr ds
      \<and> CSVDataset_len ds = 2
      \<and> CSVDataset_getitem example_long ds 0 = Inr ([1 / 2, 2], 1)
      \<and> CSVDataset_getitem example_long ds 1 = Inr ([1, 0], 0))"
proof -
  let ?rows = "[[''x'', ''y'', ''class''], [''0.5'', ''2'', ''1''], [''1'', ''0'', ''0'']]"
  have v: "valid_csv example_float ?rows"
    by (simp add: valid_csv_def example_float_def del: not_None_eq)
  from CSVDataset_valid [OF v, of id example_long] obtain ds where
    init: "CSVDataset_init example_float id ?rows = Inr ds"
    and len: "CSVDataset_len ds = length ?rows - 1"
    and item: "\<forall>i < CSVDataset_len ds. \<exists>features label.
          CSVDataset_getitem example_long ds (int i) = Inr (features, label)
          \<and> length features = length (hd ?rows) - 1
          \<and> features = map (\<lambda>s. id (the (example_float s))) (butlast (?rows ! Suc i))
          \<and> label = example_long (id (the (example_float (last (?rows ! Suc i)))))"
    by blast
  from len have l2: "CSVDataset_len ds = 2" by simp
  then have "0 < CSVDataset_len ds" by simp
  from item [rule_format, OF this] obtain f0 l0 where
    "CSVDataset_getitem example_long ds (int 0) = Inr (f0, l0)"
    "f0 = map (\<lambda>s. id (the (example_float s))) (butlast (?rows ! Suc 0))"
    "l0 = example_long (id (the (example_float (last (?rows ! Suc 0)))))"
    by blast
  then have g0: "CSVDataset_getitem example_long ds 0 = Inr ([1 / 2, 2], 1)"
    by (simp add: example_float_def example_long_def)
  from l2 have "1 < CSVDataset_len ds" by simp
  from item [rule_format, OF this] obtain f1 l1 where
    "CSVDataset_getitem example_long ds (int 1) = Inr (f1, l1)"
    "f1 = map (\<lambda>s. id (the (example_float s))) (butlast (?rows ! Suc 1))"
    "l1 = example_long (id (the (example_float (last (?rows ! Suc 1)))))"
    by blast
  then have g1: "CSVDataset_getitem example_long ds 1 = Inr ([1, 0], 0)"
    by (simp add: example_float_def example_long_def)
  from v init l2 g0 g1 show ?thesis by blast
qed

text \<open>
  C9: for a file of exactly one row (a header and no data rows) the constructor raises
  IndexError, since the first pass of the loop reads \<open>csv_data[1]\<close>; it does not
  return a dataset of size 0.
\<close>

theorem CSVDataset_header_only:
  "length file_rows = 1 \<Longrightarrow> CSVDataset_init to_float f32 file_rows = Inl IndexError"
  by (simp add: CSVDataset_init_def)

theorem CSVDataset_header_only_witness:
  "length [[''x'', ''y'', ''class'']] = 1
   \<and> CSVDataset_init example_float id [[''x'', ''y'', ''class'']] = Inl IndexError"
  using CSVDataset_header_only [of "[[''x'', ''y'', ''class'']]" example_float id] by simp

text \<open>
  C7, as amended: when a data row (a row after the header) holds a cell that is not
  numeric, or a data row's width differs from the first data row's, the constructor fails
  with an error and no dataset is produced; for every valid CSV input it succeeds. The
  header row is never read: a file with a header loads exactly when it has a data row,
  its data rows are of one width and their cells are numeric, the dataset is built from
  the data rows alone, and replacing the header by any other row, narrower or wider,
  leaves the outcome as it was.
\<close>

theorem CSVDataset_errors:
  "((\<exists>r \<in> set (tl file_rows). (\<exists>c \<in> set r. to_float c = None) \<or> length r \<noteq> length (file_rows ! 1))
      \<longrightarrow> (\<exists>e. CSVDataset_init to_float f32 file_rows = Inl e))
   \<and> (valid_csv to_float file_rows \<longrightarrow> (\<exists>ds. CSVDataset_init to_float f32 file_rows = Inr ds))
   \<and> ((\<exists>ds. CSVDataset_init to_float f32 (header # data) = Inr ds)
        \<longleftrightarrow> valid_data to_float (header # data))
   \<and> (valid_data to_float (header # data) \<longrightarrow>
        CSVDataset_init to_float f32 (header # data)
          = Inr (map (map (\<lambda>s. f32 (the (to_float s)))) data))
   \<and> (CSVDataset_init to_float f32 (header # data) = Inr ds \<longrightarrow>
        CSVDataset_init to_float f32 (header' # data) = Inr ds)"
proof (intro conjI impI)
  assume bad: "\<exists>r \<in> set (tl file_rows). (\<exists>c \<in> set r. to_float c = None) \<or> length r \<noteq> length (file_rows ! 1)"
  then have ne: "file_rows \<noteq> []" by auto
  show "\<exists>e. CSVDataset_init to_float f32 file_rows = Inl e"
  proof (cases "CSVDataset_init to_float f32 file_rows")
    case (Inl e)
    then show ?thesis by blast
  next
    case (Inr ds)
    from CSVDataset_init_Inr [OF Inr ne] bad show ?thesis by blast
  qed
next
  assume "valid_csv to_float file_rows"
  from CSVDataset_init_valid [OF this] show "\<exists>ds. CSVDataset_init to_float f32 file_rows = Inr ds"
    by blast
next
  show "(\<exists>ds. CSVDataset_init to_float f32 (header # data) = Inr ds)
        \<longleftrightarrow> valid_data to_float (header # data)"
    by (rule CSVDataset_init_success_iff)
next
  assume "valid_data to_float (header # data)"
  from CSVDataset_init_valid_data [OF this]
  show "CSVDataset_init to_float f32 (header # data)
          = Inr (map (map (\<lambda>s. f32 (the (to_float s)))) data)"
    by simp
next
  assume ok: "CSVDataset_init to_float f32 (header # data) = Inr ds"
  then have "valid_data to_float (header # data)"
    using CSVDataset_init_success_iff [of to_float f32 header data] by blast
  then have v': "valid_data to_float (header' # data)"
    by (simp add: valid_data_header [of to_float header data header'])
  from CSVDataset_init_valid_data [OF \<open>valid_data to_float (header # data)\<close>, of f32] ok
  have "ds = map (map (\<lambda>s. f32 (the (to_float s)))) data" by simp
  with CSVDataset_init_valid_data [OF v', of f32]
  show "CSVDataset_init to_float f32 (header' # data) = Inr ds" by simp
qed

theorem CSVDataset_errors_witness:
  "(\<exists>r \<in> set (tl [[''x'', ''class''], [''1'', ''abc'']]). (\<exists>c \<in> set r. example_float c = None)
       \<or> length r \<noteq> length ([[''x'', ''class''], [''1'', ''abc'']] ! 1))
   \<and> (\<exists>e. CSVDataset_init example_float id [[''x'', ''class''], [''1'', ''abc'']] = Inl e)
   \<and> (\<exists>r \<in> set (tl [[''x'', ''class''], [''1'', ''0''], [''2'']]). (\<exists>c \<in> set r. example_float c = None)
       \<or> length r \<noteq> length ([[''x'', ''class''], [''1'', ''0''], [''2'']] ! 1))
   \<and> (\<exists>e. CSVDataset_init example_float id [[''x'', ''class''], [''1'', ''0''], [''2'']] = Inl e)
   \<and> valid_csv example_float [[''x'', ''class''], [''1'', ''0'']]
   \<and> (\<exists>ds. CSVDataset_init example_float id [[''x'', ''class''], [''1'', ''0'']] = Inr ds)
   \<and> valid_data example_float [[''a'', ''b'', ''c'', ''d''], [''1'', ''2'', ''0'']]
   \<and> CSVDataset_init example_float id [[''a'', ''b'', ''c'', ''d''], [''1'', ''2'', ''0'']] = Inr [[1, 2, 0]]
   \<and> CSVDataset_init example_float id [[''a''], [''1'', ''2'', ''0'']] = Inr [[1, 2, 0]]"
proof -
  have a: "\<exists>r \<in> set (tl [[''x'', ''class''], [''1'', ''abc'']]). (\<exists>c \<in> set r. example_float c = None)
       \<or> length r \<noteq> length ([[''x'', ''class''], [''1'', ''abc'']] ! 1)"
    by (simp add: example_float_def del: not_None_eq)
  have b: "\<exists>r \<in> set (tl [[''x'', ''class''], [''1'', ''0''], [''2'']]). (\<exists>c \<in> set r. example_float c = None)
       \<or> length r \<noteq> length ([[''x'', ''class''], [''1'', ''0''], [''2'']] ! 1)"
    by (simp add: example_float_def del: not_None_eq)
  have c: "valid_csv example_float [[''x'', ''class''], [''1'', ''0'']]"
    by (simp add: valid_csv_def example_float_def del: not_None_eq)
  have d: "valid_data example_float [[''a'', ''b'', ''c'', ''d''], [''1'', ''2'', ''0'']]"
    by (simp add: valid_data_def example_float_def del: not_None_eq)
  note t1 = CSVDataset_errors [of "[[''x'', ''class''], [''1'', ''abc'']]" example_float id,
      THEN conjunct1, THEN mp, OF a]
  note t2 = CSVDataset_errors [of "[[''x'', ''class''], [''1'', ''0''], [''2'']]" example_float id,
      THEN conjunct1, THEN mp, OF b]
  note t3 = CSVDataset_errors [of "[[''x'', ''class''], [''1'', ''0'']]" example_float id,
      THEN conjunct2, THEN conjunct1, THEN mp, OF c]
  from CSVDataset_errors [of _ example_float id "[''a'', ''b'', ''c'', ''d'']" "[[''1'', ''2'', ''0'']]",
      THEN conjunct2, THEN conjunct2, THEN conjunct2, THEN conjunct1, THEN mp, OF d]
  have t4: "CSVDataset_init example_float id [[''a'', ''b'', ''c'', ''d''], [''1'', ''2'', ''0'']] = Inr [[1, 2, 0]]"
    by (simp add: example_float_def)
  note t5 = CSVDataset_errors [of _ example_float id "[''a'', ''b'', ''c'', ''d'']" "[[''1'', ''2'', ''0'']]"
      "[[1, 2, 0]]" "[''a'']",
      THEN conjunct2, THEN conjunct2, THEN conjunct2, THEN conjunct2, THEN mp, OF t4]
  show ?thesis
    by (rule conjI [OF a conjI [OF t1 conjI [OF b conjI [OF t2 conjI [OF c conjI [OF t3
          conjI [OF d conjI [OF t4 t5]]]]]]]])
qed

text \<open>
  A header of two columns over a data row of three: the rows differ in width, and the
  file loads.
\<close>

theorem CSVDataset_header_width_unchecked:
  "length [''x'', ''y''] \<noteq> length [''1'', ''2'', ''0'']
   \<and> CSVDataset_init example_float id [[''x'', ''y''], [''1'', ''2'', ''0'']] = Inr [[1, 2, 0]]"
  by (simp add: CSVDataset_init_def torch_tensor_def is_Num_def example_float_def)


section \<open>Properties of training and evaluation\<close>

subsection \<open>The rounded quotient\<close>

lemma round_half_even_nonneg: "0 \<le> a \<Longrightarrow> 0 \<le> b \<Longrightarrow> 0 \<le> round_half_even a b"
  by (simp add: round_half_even_def Let_def pos_imp_zdiv_nonneg_iff div_int_pos_iff)

lemma py_truediv_nonneg: "0 \<le> py_truediv c n"
  by (simp add: py_truediv_def Let_def round_half_even_nonneg)

lemmas py_truediv_eval =
  py_truediv_def binary_exponent_def round_half_even_def bit_length.simps Let_def

lemma py_truediv_1_2: "py_truediv 1 2 = 1 / 2"
  by (simp add: py_truediv_eval)

lemma py_truediv_3_3: "py_truediv 3 3 = 1"
  by (simp add: py_truediv_eval)

lemma py_truediv_900_1000: "py_truediv 900 1000 = 8106479329266893 / 9007199254740992"
  by (simp add: py_truediv_eval)

lemma py_truediv_9_10: "py_truediv 9 10 = 8106479329266893 / 9007199254740992"
  by (simp add: py_truediv_eval)

lemma py_truediv_Suc_forms:
  "py_truediv (Suc 0) (Suc (Suc 0)) = 1 / 2"
  "py_truediv (Suc (Suc (Suc 0))) 3 = 1"
  using py_truediv_1_2 py_truediv_3_3 by (simp_all add: numeral_2_eq_2 numeral_3_eq_3)

subsection \<open>Frames\<close>

lemma count_correct_Inr: "count_correct pred target = Inr c \<Longrightarrow> c \<le> length pred"
  by (auto simp: count_correct_def split: if_splits intro: le_trans [OF length_filter_le])

lemma evaluate_once_frame:
  assumes "evaluate_once N data target w = Inr (acc, w')"
  shows "\<exists>r. w' = w\<lparr>rng := r\<rparr>"
  using assms
  by (auto simp: evaluate_once_def Let_def split: prod.splits sum.splits if_splits)

lemma evaluate_once_nonneg:
  assumes "evaluate_once N data target w = Inr (acc, w')"
  shows "0 \<le> acc"
  using assms
  by (auto simp: evaluate_once_def Let_def py_truediv_nonneg split: prod.splits sum.splits if_splits)

lemma check_accuracy_frame:
  assumes "check_accuracy N el b w = Inr (acc, loss, w')"
  shows "\<exists>r. w' = w\<lparr>grad := zero_grad N (grad w), rng := r\<rparr>"
proof -
  from assms obtain w3 ed et where w3: "\<exists>r. w3 = w\<lparr>grad := zero_grad N (grad w), rng := r\<rparr>"
    and ev: "evaluate_once N ed et w3 = Inr (acc, w')"
    by (auto simp: check_accuracy_def Let_def split: prod.splits sum.splits list.splits)
  from evaluate_once_frame [OF ev] w3 show ?thesis by auto
qed

lemma check_accuracy_nonneg:
  assumes "check_accuracy N el b w = Inr (acc, loss, w')"
  shows "0 \<le> acc"
  using assms
  by (auto simp: check_accuracy_def Let_def split: prod.splits sum.splits list.splits
      dest: evaluate_once_nonneg)

lemma gradient_step_fields:
  "step_count (gradient_step N loss w) = Suc (step_count w)"
  "lr (gradient_step N loss w) = lr w"
  "last_epoch (gradient_step N loss w) = last_epoch w"
  "stdout (gradient_step N loss w) = stdout w"
  "training (gradient_step N loss w) = training w"
  by (simp_all add: gradient_step_def Let_def split: prod.splits)

lemma train_loop_fields:
  "train_loop N el i t bs w = Inr w' \<Longrightarrow>
     lr w' = lr w \<and> last_epoch w' = last_epoch w \<and> training w' = training w
     \<and> step_count w \<le> step_count w'"
proof (induction bs arbitrary: w)
  case Nil
  then show ?case by simp
next
  case (Cons b bs)
  from Cons.prems obtain acc loss w1 where c: "check_accuracy N el b w = Inr (acc, loss, w1)"
    by (auto split: sum.splits)
  from check_accuracy_frame [OF c] obtain r where w1: "w1 = w\<lparr>grad := zero_grad N (grad w), rng := r\<rparr>"
    by blast
  show ?case
  proof (cases "float_ge acc t")
    case True
    with Cons.prems c w1 show ?thesis by auto
  next
    case False
    with Cons.prems c have "train_loop N el i t bs (gradient_step N loss w1) = Inr w'"
      by simp
    from Cons.IH [OF this] w1 show ?thesis
      by (simp add: gradient_step_fields)
  qed
qed

lemma train_loop_no_step:
  "train_loop N el i t bs w = Inr w' \<Longrightarrow> step_count w' = step_count w \<Longrightarrow>
     params w' = params w \<and> opt_state w' = opt_state w"
proof (cases bs)
  case Nil
  assume "train_loop N el i t bs w = Inr w'"
  with Nil show ?thesis by simp
next
  case (Cons b rest)
  assume run: "train_loop N el i t bs w = Inr w'" and sc: "step_count w' = step_count w"
  from run Cons obtain acc loss w1 where c: "check_accuracy N el b w = Inr (acc, loss, w1)"
    by (auto split: sum.splits)
  from check_accuracy_frame [OF c] obtain r where w1: "w1 = w\<lparr>grad := zero_grad N (grad w), rng := r\<rparr>"
    by blast
  show ?thesis
  proof (cases "float_ge acc t")
    case True
    with run Cons c w1 show ?thesis by auto
  next
    case False
    with run Cons c have "train_loop N el i t rest (gradient_step N loss w1) = Inr w'"
      by simp
    from train_loop_fields [OF this] w1 have "Suc (step_count w) \<le> step_count w'"
      by (simp add: gradient_step_fields)
    with sc show ?thesis by simp
  qed
qed

lemma train_loop_PInf:
  "train_loop N el i PInf bs w = Inr w' \<Longrightarrow>
     step_count w' = step_count w + length bs \<and> stdout w' = stdout w"
proof (induction bs arbitrary: w)
  case Nil
  then show ?case by simp
next
  case (Cons b bs)
  from Cons.prems obtain acc loss w1 where c: "check_accuracy N el b w = Inr (acc, loss, w1)"
    by (auto split: sum.splits)
  from check_accuracy_frame [OF c] obtain r where w1: "w1 = w\<lparr>grad := zero_grad N (grad w), rng := r\<rparr>"
    by blast
  from Cons.prems c have "train_loop N el i PInf bs (gradient_step N loss w1) = Inr w'"
    by simp
  from Cons.IH [OF this] w1 show ?case
    by (simp add: gradient_step_fields)
qed

lemma train_loop_zero:
  assumes "train_loop N el i (Fin 0) (b # rest) w = Inr w'"
  shows "params w' = params w \<and> opt_state w' = opt_state w \<and> step_count w' = step_count w
     \<and> (\<exists>acc. stdout w' = stdout w @ [Early_terminated i (Fin 0) acc])"
proof -
  from assms obtain acc loss w1 where c: "check_accuracy N el b w = Inr (acc, loss, w1)"
    by (auto split: sum.splits)
  from check_accuracy_frame [OF c] obtain r where w1: "w1 = w\<lparr>grad := zero_grad N (grad w), rng := r\<rparr>"
    by blast
  from check_accuracy_nonneg [OF c] have "float_ge acc (Fin 0)" by simp
  with assms c w1 show ?thesis by auto
qed

subsection \<open>The rounded quotient is the nearest double\<close>

text \<open>
  \<open>binary_exponent\<close> is the exponent of the quotient, and \<open>py_truediv\<close> lies
  within half a unit in the last place of the exact quotient.
\<close>

lemma bit_length_bounds:
  "0 < n \<Longrightarrow> 2 ^ (bit_length n - 1) \<le> n \<and> n < 2 ^ bit_length n"
proof (induction n rule: bit_length.induct)
  case (1 n)
  from "1.prems" have bl: "bit_length n = Suc (bit_length (n div 2))"
    by (subst bit_length.simps) simp
  show ?case
  proof (cases "n div 2 = 0")
    case True
    with "1.prems" have "n = 1" by auto
    moreover have "bit_length 0 = 0" by (subst bit_length.simps) simp
    ultimately show ?thesis using bl True by simp
  next
    case False
    then have pos: "0 < n div 2" by simp
    from "1.prems" have "n \<noteq> 0" by simp
    from "1.IH" [OF this pos] have lo: "2 ^ (bit_length (n div 2) - 1) \<le> n div 2"
      and hi: "n div 2 < 2 ^ bit_length (n div 2)"
      by simp_all
    from pos have "0 < bit_length (n div 2)"
      by (subst bit_length.simps) simp
    then have "(2::nat) ^ bit_length (n div 2) = 2 * 2 ^ (bit_length (n div 2) - 1)"
      by (cases "bit_length (n div 2)") simp_all
    with lo have "2 ^ bit_length (n div 2) \<le> 2 * (n div 2)" by simp
    also have "\<dots> \<le> n" by simp
    finally have a: "2 ^ (bit_length n - 1) \<le> n" using bl by simp
    from hi have "n div 2 + 1 \<le> 2 ^ bit_length (n div 2)" by simp
    then have "2 * (n div 2) + 2 \<le> 2 * 2 ^ bit_length (n div 2)" by simp
    moreover have "n < 2 * (n div 2) + 2" by presburger
    ultimately have "n < 2 ^ bit_length n" using bl by simp
    with a show ?thesis by simp
  qed
qed

lemma round_half_even_near:
  assumes "0 < b"
  shows "\<bar>2 * (round_half_even a b * b - a)\<bar> \<le> b"
proof -
  define q where "q = a div b"
  define r where "r = a mod b"
  have a: "a = q * b + r" by (simp add: q_def r_def)
  have r: "0 \<le> r" "r < b" using assms by (simp_all add: r_def)
  have e1: "2 * (q * b - a) = - (2 * r)" using a by (simp add: algebra_simps)
  have e2: "2 * ((q + 1) * b - a) = 2 * b - 2 * r" using a by (simp add: algebra_simps)
  consider "round_half_even a b = q" "2 * r \<le> b" | "round_half_even a b = q + 1" "b \<le> 2 * r"
    unfolding round_half_even_def Let_def q_def [symmetric] r_def [symmetric]
    by (cases "2 * r < b"; cases "b < 2 * r"; cases "even q"; auto)
  then show ?thesis
  proof cases
    case 1
    with e1 r show ?thesis by simp
  next
    case 2
    with e2 r show ?thesis by simp
  qed
qed


lemma exponent_test:
  "(if 0 \<le> d then 2 ^ nat d * int n \<le> int c else int n \<le> int c * 2 ^ nat (- d))
     \<longleftrightarrow> 2 powi d * real n \<le> real c"
proof (cases "0 \<le> d")
  case True
  have "(2 ^ nat d * int n \<le> int c) = (real_of_int (2 ^ nat d * int n) \<le> real_of_int (int c))"
    by (simp only: of_int_le_iff)
  also have "\<dots> = (2 ^ nat d * real n \<le> real c)" by simp
  finally show ?thesis using True by (simp add: power_int_def)
next
  case False
  have "(int n \<le> int c * 2 ^ nat (- d)) = (real_of_int (int n) \<le> real_of_int (int c * 2 ^ nat (- d)))"
    by (simp only: of_int_le_iff)
  also have "\<dots> = (real n \<le> real c * 2 ^ nat (- d))" by simp
  also have "\<dots> = (real n / 2 ^ nat (- d) \<le> real c)"
    by (simp add: pos_divide_le_eq)
  finally have e: "(int n \<le> int c * 2 ^ nat (- d)) = (real n / 2 ^ nat (- d) \<le> real c)" .
  from False have "(2::real) powi d = inverse 2 ^ nat (- d)"
    by (simp add: power_int_def)
  also have "\<dots> = 1 / 2 ^ nat (- d)"
    by (simp add: power_one_over [symmetric] inverse_eq_divide)
  finally have "2 powi d * real n = real n / 2 ^ nat (- d)" by simp
  with e False show ?thesis by simp
qed


lemma binary_exponent_bounds:
  assumes c: "0 < c" and n: "0 < n"
  shows "2 powi binary_exponent c n * real n \<le> real c"
    and "real c < 2 powi (binary_exponent c n + 1) * real n"
proof -
  define bc where "bc = bit_length c"
  define bn where "bn = bit_length n"
  define d where "d = int bc - int bn"
  from bit_length_bounds [OF c] have c1: "(2::nat) ^ (bc - 1) \<le> c" and c2: "c < 2 ^ bc"
    by (simp_all add: bc_def)
  from bit_length_bounds [OF n] have n1: "(2::nat) ^ (bn - 1) \<le> n" and n2: "n < 2 ^ bn"
    by (simp_all add: bn_def)
  have bcp: "0 < bc" using c unfolding bc_def by (subst bit_length.simps) simp
  have bnp: "0 < bn" using n unfolding bn_def by (subst bit_length.simps) simp
  have rc1: "(2::real) powi (int bc - 1) \<le> real c"
  proof -
    from c1 have "real (2 ^ (bc - 1)) \<le> real c" by (simp only: of_nat_le_iff)
    moreover from bcp have "(2::real) powi (int bc - 1) = 2 ^ (bc - 1)"
      by (simp add: power_int_def nat_diff_distrib')
    ultimately show ?thesis by simp
  qed
  have rc2: "real c < 2 powi int bc"
  proof -
    from c2 have "real c < real (2 ^ bc)" by (simp only: of_nat_less_iff)
    then show ?thesis by (simp add: power_int_def)
  qed
  have rn1: "(2::real) powi (int bn - 1) \<le> real n"
  proof -
    from n1 have "real (2 ^ (bn - 1)) \<le> real n" by (simp only: of_nat_le_iff)
    moreover from bnp have "(2::real) powi (int bn - 1) = 2 ^ (bn - 1)"
      by (simp add: power_int_def nat_diff_distrib')
    ultimately show ?thesis by simp
  qed
  have rn2: "real n < 2 powi int bn"
  proof -
    from n2 have "real n < real (2 ^ bn)" by (simp only: of_nat_less_iff)
    then show ?thesis by (simp add: power_int_def)
  qed
  have pos: "0 < (2::real) powi k" for k by simp
  have upper: "real c < 2 powi (d + 1) * real n"
  proof -
    have "int bc = (d + 1) + (int bn - 1)" by (simp add: d_def)
    then have "(2::real) powi int bc = 2 powi ((d + 1) + (int bn - 1))" by (simp only:)
    also have "\<dots> = 2 powi (d + 1) * 2 powi (int bn - 1)"
      by (rule power_int_add) simp
    finally have "(2::real) powi int bc = 2 powi (d + 1) * 2 powi (int bn - 1)" .
    also have "\<dots> \<le> 2 powi (d + 1) * real n"
      using rn1 pos [of "d + 1"] by (simp only: mult_le_cancel_left_pos)
    finally show ?thesis using rc2 by linarith
  qed
  have lower: "2 powi (d - 1) * real n \<le> real c"
  proof -
    have "2 powi (d - 1) * real n < 2 powi (d - 1) * 2 powi int bn"
      using rn2 pos [of "d - 1"] by (simp only: mult_less_cancel_left_pos)
    also have "\<dots> = 2 powi ((d - 1) + int bn)"
      by (rule power_int_add [symmetric]) simp
    also have "(d - 1) + int bn = int bc - 1" by (simp add: d_def)
    finally show ?thesis using rc1 by linarith
  qed
  have be: "binary_exponent c n = (if 2 powi d * real n \<le> real c then d else d - 1)"
    unfolding binary_exponent_def Let_def bc_def [symmetric] bn_def [symmetric] d_def [symmetric]
    by (simp only: exponent_test)
  show "2 powi binary_exponent c n * real n \<le> real c"
    using lower by (simp add: be)
  show "real c < 2 powi (binary_exponent c n + 1) * real n"
    using upper by (auto simp: be not_le)
qed

lemma near_quotient:
  fixes x y p s :: real
  assumes y: "0 < y" and b: "\<bar>2 * (p * y - x)\<bar> \<le> y * s"
  shows "\<bar>p - x / y\<bar> \<le> s / 2"
proof -
  have "p - x / y = (p * y - x) / y" using y by (simp add: field_simps)
  then have e: "\<bar>p - x / y\<bar> = \<bar>p * y - x\<bar> / y" using y by simp
  have "\<bar>2 * (p * y - x)\<bar> = \<bar>2\<bar> * \<bar>p * y - x\<bar>" by (rule abs_mult)
  then have "\<bar>2 * (p * y - x)\<bar> = 2 * \<bar>p * y - x\<bar>" by (simp only: abs_numeral)
  with b have "\<bar>p * y - x\<bar> \<le> y * s / 2" by simp
  then have "\<bar>p * y - x\<bar> / y \<le> (y * s / 2) / y"
    using y by (simp only: divide_right_mono less_imp_le)
  also have "\<dots> = s / 2" using y by simp
  finally show ?thesis by (simp only: e)
qed

lemma py_truediv_nearest:
  assumes c: "0 < c" and n: "0 < n"
  shows "\<bar>py_truediv c n - real c / real n\<bar> \<le> 2 powi (binary_exponent c n - 53)"
proof -
  define k where "k = binary_exponent c n - 52"
  have half: "(2::real) powi (binary_exponent c n - 53) = 2 powi k / 2"
  proof -
    have "binary_exponent c n - 53 = k + (- 1)" by (simp add: k_def)
    then have "(2::real) powi (binary_exponent c n - 53) = 2 powi (k + (- 1))" by (simp only:)
    also have "\<dots> = 2 powi k * 2 powi (- 1)"
      by (rule power_int_add) simp
    also have "(2::real) powi (- 1) = 1 / 2" by (simp add: power_int_def)
    finally show ?thesis by simp
  qed
  from n have rn: "0 < real n" by simp
  show ?thesis
  proof (cases "0 \<le> k")
    case True
    define m where "m = nat k"
    define R where "R = round_half_even (int c) (int n * 2 ^ m)"
    from True have pk: "(2::real) powi k = 2 ^ m" by (simp add: power_int_def m_def)
    from c True have py: "py_truediv c n = of_int R * 2 ^ m"
      by (simp add: py_truediv_def Let_def k_def [symmetric] R_def m_def)
    from n have "0 < int n * 2 ^ m" by simp
    from round_half_even_near [OF this, of "int c"]
    have "\<bar>2 * (R * (int n * 2 ^ m) - int c)\<bar> \<le> int n * 2 ^ m" by (simp add: R_def)
    then have "real_of_int \<bar>2 * (R * (int n * 2 ^ m) - int c)\<bar> \<le> real_of_int (int n * 2 ^ m)"
      by (simp only: of_int_le_iff)
    then have "\<bar>2 * (of_int R * 2 ^ m * real n - real c)\<bar> \<le> real n * 2 ^ m"
      by (simp add: mult.assoc mult.commute mult.left_commute)
    from near_quotient [OF rn this] show ?thesis by (simp only: py half pk)
  next
    case False
    define m where "m = nat (- k)"
    define R where "R = round_half_even (int c * 2 ^ m) (int n)"
    from False have pk: "(2::real) powi k = 1 / 2 ^ m"
      by (simp add: power_int_def m_def power_one_over [symmetric] inverse_eq_divide)
    from c False have py: "py_truediv c n = of_int R / 2 ^ m"
      by (simp add: py_truediv_def Let_def k_def [symmetric] R_def m_def)
    from n have "0 < int n" by simp
    from round_half_even_near [OF this, of "int c * 2 ^ m"]
    have "\<bar>2 * (R * int n - int c * 2 ^ m)\<bar> \<le> int n" by (simp add: R_def)
    then have "real_of_int \<bar>2 * (R * int n - int c * 2 ^ m)\<bar> \<le> real_of_int (int n)"
      by (simp only: of_int_le_iff)
    then have i: "\<bar>2 * (of_int R * real n - real c * 2 ^ m)\<bar> \<le> real n" by simp
    have "2 * (of_int R / 2 ^ m * real n - real c) = 2 * (of_int R * real n - real c * 2 ^ m) / 2 ^ m"
      by (simp add: field_simps)
    then have "\<bar>2 * (of_int R / 2 ^ m * real n - real c)\<bar>
        = \<bar>2 * (of_int R * real n - real c * 2 ^ m)\<bar> / 2 ^ m"
      by (simp only: abs_divide) simp
    also have "\<dots> \<le> real n / 2 ^ m"
      using i by (simp only: divide_right_mono zero_le_power zero_le_numeral)
    finally have "\<bar>2 * (of_int R / 2 ^ m * real n - real c)\<bar> \<le> real n * (1 / 2 ^ m)" by simp
    from near_quotient [OF rn this] show ?thesis by (simp only: py half pk)
  qed
qed


lemma train_no_step:
  assumes "train N trl el ep i t w = Inr w'" and "step_count w' = step_count w"
  shows "params w' = params w \<and> opt_state w' = opt_state w"
proof -
  obtain bs r where l: "trl (rng w) = (bs, r)" by (cases "trl (rng w)")
  with assms have "train_loop N el i t bs (w\<lparr>training := True, rng := r\<rparr>) = Inr w'"
    by (simp add: train_def)
  from train_loop_no_step [OF this] assms(2) show ?thesis by simp
qed

lemma train_PInf:
  assumes "train N trl el ep i PInf w = Inr w'"
  shows "step_count w' = step_count w + length (fst (trl (rng w))) \<and> stdout w' = stdout w"
proof -
  obtain bs r where l: "trl (rng w) = (bs, r)" by (cases "trl (rng w)")
  with assms have "train_loop N el i PInf bs (w\<lparr>training := True, rng := r\<rparr>) = Inr w'"
    by (simp add: train_def)
  from train_loop_PInf [OF this] l show ?thesis by simp
qed

lemma train_zero:
  assumes "train N trl el ep i (Fin 0) w = Inr w'"
  shows "params w' = params w \<and> opt_state w' = opt_state w \<and> step_count w' = step_count w"
proof -
  obtain bs r where l: "trl (rng w) = (bs, r)" by (cases "trl (rng w)")
  with assms have run: "train_loop N el i (Fin 0) bs (w\<lparr>training := True, rng := r\<rparr>) = Inr w'"
    by (simp add: train_def)
  show ?thesis
  proof (cases bs)
    case Nil
    with run show ?thesis by auto
  next
    case (Cons b rest)
    with run train_loop_zero [of N el i b rest "w\<lparr>training := True, rng := r\<rparr>" w']
    show ?thesis by simp
  qed
qed

lemma scheduler_step_fields:
  "last_epoch (scheduler_step gamma w) = Suc (last_epoch w)"
  "lr (scheduler_step gamma w) = lr w * gamma"
  "params (scheduler_step gamma w) = params w"
  "opt_state (scheduler_step gamma w) = opt_state w"
  "step_count (scheduler_step gamma w) = step_count w"
  "stdout (scheduler_step gamma w) = stdout w"
  "rng (scheduler_step gamma w) = rng w"
  by (simp_all add: scheduler_step_def)


lemma run_epochs_PInf:
  assumes nb: "\<forall>r. length (fst (trl r)) = n"
  shows "run_epochs N trl el gamma i PInf es w = Inr w' \<Longrightarrow>
     step_count w' = step_count w + length es * n \<and> stdout w' = stdout w"
proof (induction es arbitrary: w)
  case Nil
  then show ?case by simp
next
  case (Cons e es)
  from Cons.prems obtain w1 where t: "train N trl el e i PInf w = Inr w1"
    and rest: "run_epochs N trl el gamma i PInf es (scheduler_step gamma w1) = Inr w'"
    by (auto split: sum.splits)
  from train_PInf [OF t] nb Cons.IH [OF rest] show ?case
    by (simp add: scheduler_step_fields)
qed

lemma run_epochs_zero:
  "run_epochs N trl el gamma i (Fin 0) es w = Inr w' \<Longrightarrow>
     params w' = params w \<and> opt_state w' = opt_state w \<and> step_count w' = step_count w"
proof (induction es arbitrary: w)
  case Nil
  then show ?case by simp
next
  case (Cons e es)
  from Cons.prems obtain w1 where t: "train N trl el e i (Fin 0) w = Inr w1"
    and rest: "run_epochs N trl el gamma i (Fin 0) es (scheduler_step gamma w1) = Inr w'"
    by (auto split: sum.splits)
  from train_zero [OF t] Cons.IH [OF rest] show ?case
    by (simp add: scheduler_step_fields)
qed

lemma evaluate_loop_frame:
  "evaluate_loop N bs l c w = Inr (res, w') \<Longrightarrow> \<exists>r. w' = w\<lparr>rng := r\<rparr>"
proof (induction bs arbitrary: l c w)
  case Nil
  then have "w' = w\<lparr>rng := rng w\<rparr>" by simp
  then show ?case by blast
next
  case (Cons b bs)
  from Cons.prems obtain l' c' r where
    "evaluate_loop N bs l' c' (w\<lparr>rng := r\<rparr>) = Inr (res, w')"
    by (auto simp: Let_def split: prod.splits sum.splits)
  from Cons.IH [OF this] show ?case by auto
qed

lemma evaluate_frame:
  assumes "evaluate N dl n w = Inr (res, w')"
  shows "\<exists>r. w' = w\<lparr>training := False, rng := r\<rparr>"
proof -
  obtain bs r where l: "dl (rng w) = (bs, r)" by (cases "dl (rng w)")
  with assms obtain res' where "evaluate_loop N bs 0 0 (w\<lparr>training := False, rng := r\<rparr>) = Inr (res', w')"
    by (auto simp: evaluate_def Let_def split: sum.splits prod.splits if_splits)
  from evaluate_loop_frame [OF this] show ?thesis by auto
qed



subsection \<open>The loop without the early stop\<close>

lemma check_accuracy_explicit:
  assumes "forward N (params w) (training w) (fst b) (rng w) = (output, r1)"
    and "el r1 = (eval_data # others, r2)"
    and "forward N (params w) (training w) (fst eval_data) r2 = (eval_output, r3)"
    and "count_correct (argmax N eval_output) (snd eval_data) = Inr correct"
    and "fst eval_data \<noteq> []"
  shows "check_accuracy N el b w =
     Inr (py_truediv correct (length (fst eval_data)), cross_entropy N output (snd b),
          w\<lparr>grad := zero_grad N (grad w), rng := r3\<rparr>)"
  using assms by (simp add: check_accuracy_def evaluate_once_def Let_def)

lemma gradient_step_explicit:
  "gradient_step N loss (w\<lparr>grad := g0, rng := r\<rparr>) =
     w\<lparr>params := fst (adadelta_step N (lr w) (opt_state w) (params w) (backward N loss g0)),
       grad := backward N loss g0,
       opt_state := snd (adadelta_step N (lr w) (opt_state w) (params w) (backward N loss g0)),
       step_count := Suc (step_count w), rng := r\<rparr>"
  by (simp add: gradient_step_def Let_def split: prod.splits)

lemma check_then_step:
  "(case check_accuracy N el b w of
      Inl e \<Rightarrow> Inl e
    | Inr (acc, loss, w1) \<Rightarrow> Inr (gradient_step N loss w1)) = trained_on N el b w"
  by (simp add: check_accuracy_def evaluate_once_def gradient_step_def trained_on_def Let_def
      split: prod.splits list.splits sum.splits)

lemma train_loop_PInf_eq:
  "train_loop N el i PInf bs w = trained_on_all N el bs w"
proof (induction bs arbitrary: w)
  case Nil
  then show ?case by simp
next
  case (Cons b bs)
  show ?case
  proof (cases "check_accuracy N el b w")
    case (Inl e)
    with check_then_step [of N el b w] have "trained_on N el b w = Inl e" by simp
    with Inl show ?thesis by simp
  next
    case (Inr res)
    obtain acc loss w1 where res: "res = (acc, loss, w1)" by (cases res)
    with Inr check_then_step [of N el b w]
    have t: "trained_on N el b w = Inr (gradient_step N loss w1)" by simp
    from Inr res have "train_loop N el i PInf (b # bs) w = train_loop N el i PInf bs (gradient_step N loss w1)"
      by simp
    with Cons.IH t show ?thesis by simp
  qed
qed

lemma run_epochs_PInf_eq:
  "run_epochs N trl el gamma i PInf es w = trained_epochs N trl el gamma es w"
proof (induction es arbitrary: w)
  case Nil
  then show ?case by simp
next
  case (Cons e es)
  obtain bs r where l: "trl (rng w) = (bs, r)" by (cases "trl (rng w)")
  then have t: "train N trl el e i PInf w = trained_on_all N el bs (w\<lparr>training := True, rng := r\<rparr>)"
    by (simp add: train_def train_loop_PInf_eq)
  show ?case
  proof (cases "trained_on_all N el bs (w\<lparr>training := True, rng := r\<rparr>)")
    case (Inl err)
    with t l show ?thesis by simp
  next
    case (Inr w1)
    with t l Cons.IH [of "scheduler_step gamma w1"] show ?thesis
      by (simp add: scheduler_step_def)
  qed
qed

subsection \<open>The passes of the epoch loop\<close>


subsection \<open>The small instance, run\<close>

lemmas example_defs =
  example_net_def example_train_loader_def example_evaluation_loader_def example_world_def
  train_def check_accuracy_def gradient_step_def evaluate_once_def count_correct_def
  scheduler_step_def evaluate_def Let_def py_truediv_Suc_forms

lemma example_check:
  "check_accuracy example_net example_evaluation_loader ([0, 1], [0, 1]) example_world =
     Inr (1 / 2, 1, example_world\<lparr>rng := 3\<rparr>)"
  by (simp add: example_defs)

lemma example_run_PInf:
  "run_epochs example_net example_train_loader example_evaluation_loader (1 / 2) 0 PInf [1, 2] example_world =
     Inr \<lparr>params = 5, grad = 1, training = True, opt_state = (), lr = 1 / 4,
        step_count = 4, last_epoch = 2, rng = 14, stdout = []\<rparr>"
  by (simp add: example_defs)

lemma example_run_zero:
  "run_epochs example_net example_train_loader example_evaluation_loader (1 / 2) 0 (Fin 0) [1, 2] example_world =
     Inr \<lparr>params = 1, grad = 0, training = True, opt_state = (), lr = 1 / 4,
        step_count = 0, last_epoch = 2, rng = 8,
        stdout = [Early_terminated 0 (Fin 0) (1 / 2), Early_terminated 0 (Fin 0) (1 / 2)]\<rparr>"
  by (simp add: example_defs)


lemma example_loop_zero:
  "train_loop example_net example_evaluation_loader 0 (Fin 0) [([0, 1], [0, 1]), ([2], [1])] example_world =
     Inr \<lparr>params = 1, grad = 0, training = False, opt_state = (), lr = 1,
        step_count = 0, last_epoch = 0, rng = 3, stdout = [Early_terminated 0 (Fin 0) (1 / 2)]\<rparr>"
  by (simp add: example_defs)

lemma py_truediv_9_10_Suc:
  "py_truediv (Suc (Suc (Suc (Suc (Suc (Suc (Suc (Suc (Suc 0)))))))))
     (Suc (Suc (Suc (Suc (Suc (Suc (Suc (Suc (Suc (Suc 0))))))))))
   = 8106479329266893 / 9007199254740992"
proof -
  have "Suc (Suc (Suc (Suc (Suc (Suc (Suc (Suc (Suc 0)))))))) = 9"
    and "Suc (Suc (Suc (Suc (Suc (Suc (Suc (Suc (Suc (Suc 0))))))))) = 10"
    by simp_all
  then show ?thesis by (simp only: py_truediv_9_10)
qed

text \<open>
  Nine of ten right against the threshold \<open>0.9\<close>, which \<open>float\<close> reads as the
  double nearest to nine tenths: the rounded accuracy is that same double, and the test
  fires, although the exact quotient lies below the threshold.
\<close>

lemma example_loop_0_9:
  "train_loop example_net example_evaluation_loader_10 0 (Fin (8106479329266893 / 9007199254740992))
     [([0, 1], [0, 1]), ([2], [1])] example_world =
     Inr \<lparr>params = 1, grad = 0, training = False, opt_state = (), lr = 1,
        step_count = 0, last_epoch = 0, rng = 3,
        stdout = [Early_terminated 0 (Fin (8106479329266893 / 9007199254740992))
                    (8106479329266893 / 9007199254740992)]\<rparr>"
  by (simp add: example_net_def example_evaluation_loader_10_def example_world_def
      check_accuracy_def evaluate_once_def count_correct_def Let_def py_truediv_9_10_Suc)

lemma exact_quotient_below_0_9:
  "float_ge (py_truediv 900 1000) (Fin (py_truediv 9 10))
   \<and> \<not> float_ge (900 / 1000) (Fin (py_truediv 9 10))"
  by (simp add: py_truediv_900_1000 py_truediv_9_10)

subsection \<open>The claims about training\<close>

text \<open>
  C1: in the training loop, for every model, threshold and batch, the accuracy of the
  evaluation batch (the rounded quotient of the correct predictions of the model, as it
  stands before the update, on one fresh evaluation batch) is computed before the
  gradient update, and the loop returns at once, leaving the parameters and the
  optimizer as they were, exactly when that accuracy is at least the threshold;
  otherwise it goes on from the state in which \<open>backward\<close> has set the gradient of
  this batch's loss and Adadelta has updated the parameters with it. With the threshold
  \<open>+\<infinity>\<close> the check never fires: the run over the epochs is the run that trains on
  every batch of every epoch, and it takes one optimizer step per batch. With the
  threshold 0 the check fires on the first batch and the parameters receive no optimizer
  update, in one pass and over all epochs.
\<close>

theorem train_early_stop:
  "(forward N (params w) (training w) (fst b) (rng w) = (output, r1)
      \<and> evaluation_loader r1 = (eval_data # others, r2)
      \<and> forward N (params w) (training w) (fst eval_data) r2 = (eval_output, r3)
      \<and> count_correct (argmax N eval_output) (snd eval_data) = Inr correct
      \<and> fst eval_data \<noteq> []
      \<and> acc = py_truediv correct (length (fst eval_data))
      \<and> g = backward N (cross_entropy N output (snd b)) (zero_grad N (grad w))
    \<longrightarrow>
      train_loop N evaluation_loader net_id threshold (b # rest) w =
        (if float_ge acc threshold
         then Inr (w\<lparr>grad := zero_grad N (grad w), rng := r3,
                     stdout := stdout w @ [Early_terminated net_id threshold acc]\<rparr>)
         else train_loop N evaluation_loader net_id threshold rest
                (w\<lparr>params := fst (adadelta_step N (lr w) (opt_state w) (params w) g),
                   grad := g,
                   opt_state := snd (adadelta_step N (lr w) (opt_state w) (params w) g),
                   step_count := Suc (step_count w), rng := r3\<rparr>)))
   \<and> run_epochs N train_loader evaluation_loader gamma net_id PInf epochs w
       = trained_epochs N train_loader evaluation_loader gamma epochs w
   \<and> ((\<forall>r. length (fst (train_loader r)) = n)
        \<and> run_epochs N train_loader evaluation_loader gamma net_id PInf epochs w = Inr w2 \<longrightarrow>
      step_count w2 = step_count w + length epochs * n \<and> stdout w2 = stdout w)
   \<and> (run_epochs N train_loader evaluation_loader gamma net_id (Fin 0) epochs w = Inr w3 \<longrightarrow>
      params w3 = params w \<and> opt_state w3 = opt_state w \<and> step_count w3 = step_count w)
   \<and> (train_loop N evaluation_loader net_id (Fin 0) (b # rest) w = Inr w4 \<longrightarrow>
      params w4 = params w \<and> step_count w4 = step_count w
      \<and> (\<exists>a. stdout w4 = stdout w @ [Early_terminated net_id (Fin 0) a]))"
proof (intro conjI impI)
  assume a: "forward N (params w) (training w) (fst b) (rng w) = (output, r1)
      \<and> evaluation_loader r1 = (eval_data # others, r2)
      \<and> forward N (params w) (training w) (fst eval_data) r2 = (eval_output, r3)
      \<and> count_correct (argmax N eval_output) (snd eval_data) = Inr correct
      \<and> fst eval_data \<noteq> []
      \<and> acc = py_truediv correct (length (fst eval_data))
      \<and> g = backward N (cross_entropy N output (snd b)) (zero_grad N (grad w))"
  then have f1: "forward N (params w) (training w) (fst b) (rng w) = (output, r1)"
    and ev: "evaluation_loader r1 = (eval_data # others, r2)"
    and f2: "forward N (params w) (training w) (fst eval_data) r2 = (eval_output, r3)"
    and cc: "count_correct (argmax N eval_output) (snd eval_data) = Inr correct"
    and ne: "fst eval_data \<noteq> []"
    and acc: "acc = py_truediv correct (length (fst eval_data))"
    and g: "g = backward N (cross_entropy N output (snd b)) (zero_grad N (grad w))"
    by simp_all
  from check_accuracy_explicit [where el = evaluation_loader, OF f1 ev f2 cc ne] acc
  have c: "check_accuracy N evaluation_loader b w =
     Inr (acc, cross_entropy N output (snd b), w\<lparr>grad := zero_grad N (grad w), rng := r3\<rparr>)"
    by simp
  show "train_loop N evaluation_loader net_id threshold (b # rest) w =
        (if float_ge acc threshold
         then Inr (w\<lparr>grad := zero_grad N (grad w), rng := r3,
                     stdout := stdout w @ [Early_terminated net_id threshold acc]\<rparr>)
         else train_loop N evaluation_loader net_id threshold rest
                (w\<lparr>params := fst (adadelta_step N (lr w) (opt_state w) (params w) g),
                   grad := g,
                   opt_state := snd (adadelta_step N (lr w) (opt_state w) (params w) g),
                   step_count := Suc (step_count w), rng := r3\<rparr>))"
    using c g by (simp add: gradient_step_explicit)
next
  show "run_epochs N train_loader evaluation_loader gamma net_id PInf epochs w
       = trained_epochs N train_loader evaluation_loader gamma epochs w"
    by (rule run_epochs_PInf_eq)
next
  assume a: "(\<forall>r. length (fst (train_loader r)) = n)
        \<and> run_epochs N train_loader evaluation_loader gamma net_id PInf epochs w = Inr w2"
  then have nb: "\<forall>r. length (fst (train_loader r)) = n"
    and run: "run_epochs N train_loader evaluation_loader gamma net_id PInf epochs w = Inr w2"
    by simp_all
  from run_epochs_PInf [OF nb run]
  show "step_count w2 = step_count w + length epochs * n" and "stdout w2 = stdout w"
    by simp_all
next
  assume run: "run_epochs N train_loader evaluation_loader gamma net_id (Fin 0) epochs w = Inr w3"
  from run_epochs_zero [OF run]
  show "params w3 = params w" and "opt_state w3 = opt_state w" and "step_count w3 = step_count w"
    by simp_all
next
  assume run: "train_loop N evaluation_loader net_id (Fin 0) (b # rest) w = Inr w4"
  from train_loop_zero [OF run]
  show "params w4 = params w" and "step_count w4 = step_count w"
    and "\<exists>a. stdout w4 = stdout w @ [Early_terminated net_id (Fin 0) a]"
    by simp_all
qed

lemma example_trained_epochs:
  "trained_epochs example_net example_train_loader example_evaluation_loader (1 / 2) [1, 2] example_world =
     Inr \<lparr>params = 5, grad = 1, training = True, opt_state = (), lr = 1 / 4,
        step_count = 4, last_epoch = 2, rng = 14, stdout = []\<rparr>"
  by (simp add: example_net_def example_train_loader_def example_evaluation_loader_def
      example_world_def trained_on_def count_correct_def Let_def)

theorem train_early_stop_witness:
  "train_loop example_net example_evaluation_loader 0 (Fin (1 / 2)) [([0, 1], [0, 1]), ([2], [1])] example_world =
      Inr (example_world\<lparr>rng := 3, stdout := [Early_terminated 0 (Fin (1 / 2)) (1 / 2)]\<rparr>)
   \<and> train_loop example_net example_evaluation_loader 0 (Fin 1) [([0, 1], [0, 1])] example_world =
      Inr (example_world\<lparr>params := 2, grad := 1, step_count := 1, rng := 3\<rparr>)
   \<and> train_loop example_net example_evaluation_loader_10 0 (Fin (8106479329266893 / 9007199254740992))
        [([0, 1], [0, 1]), ([2], [1])] example_world =
      Inr (example_world\<lparr>rng := 3,
             stdout := [Early_terminated 0 (Fin (8106479329266893 / 9007199254740992))
                          (8106479329266893 / 9007199254740992)]\<rparr>)
   \<and> (\<forall>r. length (fst (example_train_loader r)) = 2)
   \<and> run_epochs example_net example_train_loader example_evaluation_loader (1 / 2) 0 PInf [1, 2] example_world =
      Inr \<lparr>params = 5, grad = 1, training = True, opt_state = (), lr = 1 / 4,
        step_count = 4, last_epoch = 2, rng = 14, stdout = []\<rparr>
   \<and> (\<exists>w3. run_epochs example_net example_train_loader example_evaluation_loader (1 / 2) 0 (Fin 0) [1, 2] example_world = Inr w3
        \<and> params w3 = 1 \<and> step_count w3 = 0)
   \<and> (\<exists>w4. train_loop example_net example_evaluation_loader 0 (Fin 0) [([0, 1], [0, 1]), ([2], [1])] example_world = Inr w4
        \<and> params w4 = 1 \<and> step_count w4 = 0 \<and> stdout w4 = [Early_terminated 0 (Fin 0) (1 / 2)])"
proof -
  have nb: "\<forall>r. length (fst (example_train_loader r)) = 2"
    by (simp add: example_train_loader_def)
  have h: "forward example_net (params example_world) (training example_world) (fst ([0, 1], [0, 1])) (rng example_world)
        = ([0, 1], 1)
      \<and> example_evaluation_loader 1 = (([0, 1], [1, 1]) # [], 2)
      \<and> forward example_net (params example_world) (training example_world) (fst ([0, 1], [1 :: int, 1])) 2
        = ([0, 1], 3)
      \<and> count_correct (argmax example_net [0, 1]) (snd ([0 :: int, 1], [1, 1])) = Inr 1
      \<and> fst ([0 :: int, 1], [1 :: int, 1]) \<noteq> []
      \<and> 1 / 2 = py_truediv 1 (length (fst ([0 :: int, 1], [1 :: int, 1])))
      \<and> 1 = backward example_net (cross_entropy example_net [0, 1] (snd ([0 :: int, 1], [0, 1])))
              (zero_grad example_net (grad example_world))"
    by (simp add: example_net_def example_world_def example_evaluation_loader_def count_correct_def
        py_truediv_Suc_forms)
  note step = train_early_stop [of example_net example_world "([0, 1], [0, 1])" "[0, 1]" 1
      example_evaluation_loader "([0, 1], [1, 1])" "[]" 2 "[0, 1]" 3 1 "1 / 2" 1 0,
      THEN conjunct1, THEN mp, OF h]
  from step [of "Fin (1 / 2)" "[([2], [1])]"]
  have a: "train_loop example_net example_evaluation_loader 0 (Fin (1 / 2)) [([0, 1], [0, 1]), ([2], [1])] example_world =
      Inr (example_world\<lparr>rng := 3, stdout := [Early_terminated 0 (Fin (1 / 2)) (1 / 2)]\<rparr>)"
    by (simp add: example_net_def example_world_def)
  from step [of "Fin 1" "[]"]
  have a': "train_loop example_net example_evaluation_loader 0 (Fin 1) [([0, 1], [0, 1])] example_world =
      Inr (example_world\<lparr>params := 2, grad := 1, step_count := 1, rng := 3\<rparr>)"
    by (simp add: example_net_def example_world_def)
  from example_loop_0_9
  have r: "train_loop example_net example_evaluation_loader_10 0 (Fin (8106479329266893 / 9007199254740992))
        [([0, 1], [0, 1]), ([2], [1])] example_world =
      Inr (example_world\<lparr>rng := 3,
             stdout := [Early_terminated 0 (Fin (8106479329266893 / 9007199254740992))
                          (8106479329266893 / 9007199254740992)]\<rparr>)"
    by (simp add: example_world_def)
  note t = train_early_stop [of example_net example_world "([0, 1], [0, 1])" _ _
      example_evaluation_loader _ _ _ _ _ _ _ _ 0 _ "[([2], [1])]" example_train_loader "1 / 2" "[1, 2]" 2]
  from t [THEN conjunct2, THEN conjunct1] example_trained_epochs
  have b: "run_epochs example_net example_train_loader example_evaluation_loader (1 / 2) 0 PInf [1, 2] example_world =
      Inr \<lparr>params = 5, grad = 1, training = True, opt_state = (), lr = 1 / 4,
        step_count = 4, last_epoch = 2, rng = 14, stdout = []\<rparr>"
    by simp
  from t [THEN conjunct2, THEN conjunct2, THEN conjunct2, THEN conjunct1] example_run_zero
  have c: "\<exists>w3. run_epochs example_net example_train_loader example_evaluation_loader (1 / 2) 0 (Fin 0) [1, 2] example_world = Inr w3
        \<and> params w3 = 1 \<and> step_count w3 = 0"
    by (simp add: example_world_def)
  from t [THEN conjunct2, THEN conjunct2, THEN conjunct2, THEN conjunct2] example_loop_zero
  have d: "\<exists>w4. train_loop example_net example_evaluation_loader 0 (Fin 0) [([0, 1], [0, 1]), ([2], [1])] example_world = Inr w4
        \<and> params w4 = 1 \<and> step_count w4 = 0 \<and> stdout w4 = [Early_terminated 0 (Fin 0) (1 / 2)]"
    by (auto simp add: example_world_def)
  show ?thesis
    by (rule conjI [OF a conjI [OF a' conjI [OF r conjI [OF nb conjI [OF b conjI [OF c d]]]]]])
qed



text \<open>
  C10: for every model and batch the accuracy evaluations, \<open>evaluate_once\<close> and
  \<open>evaluate\<close>, leave the trainable parameters as they were (and the gradients and
  the optimizer's accumulators with them); in \<open>train\<close> the early-stop check changes
  no parameter, and a call of \<open>train\<close> that made no optimizer step returns the
  parameters it was given.
\<close>

theorem evaluation_keeps_parameters:
  "(evaluate_once N data target w = Inr (acc, w1) \<longrightarrow>
      params w1 = params w \<and> grad w1 = grad w \<and> opt_state w1 = opt_state w)
   \<and> (evaluate N data_loader dataset_len w = Inr (res, w2) \<longrightarrow>
      params w2 = params w \<and> grad w2 = grad w \<and> opt_state w2 = opt_state w)
   \<and> (check_accuracy N evaluation_loader b w = Inr (acc', loss, w3) \<longrightarrow>
      params w3 = params w \<and> opt_state w3 = opt_state w)
   \<and> (train N train_loader evaluation_loader epoch net_id threshold w = Inr w4
        \<and> step_count w4 = step_count w \<longrightarrow>
      params w4 = params w \<and> opt_state w4 = opt_state w)"
proof (intro conjI impI)
  assume "evaluate_once N data target w = Inr (acc, w1)"
  from evaluate_once_frame [OF this] obtain r where "w1 = w\<lparr>rng := r\<rparr>" by blast
  then show "params w1 = params w" and "grad w1 = grad w" and "opt_state w1 = opt_state w"
    by simp_all
next
  assume "evaluate N data_loader dataset_len w = Inr (res, w2)"
  from evaluate_frame [OF this] obtain r where "w2 = w\<lparr>training := False, rng := r\<rparr>"
    by blast
  then show "params w2 = params w" and "grad w2 = grad w" and "opt_state w2 = opt_state w"
    by simp_all
next
  assume "check_accuracy N evaluation_loader b w = Inr (acc', loss, w3)"
  from check_accuracy_frame [OF this] obtain r where
    "w3 = w\<lparr>grad := zero_grad N (grad w), rng := r\<rparr>"
    by blast
  then show "params w3 = params w" and "opt_state w3 = opt_state w"
    by simp_all
next
  assume a: "train N train_loader evaluation_loader epoch net_id threshold w = Inr w4
        \<and> step_count w4 = step_count w"
  then have "train N train_loader evaluation_loader epoch net_id threshold w = Inr w4"
    and "step_count w4 = step_count w"
    by simp_all
  from train_no_step [OF this]
  show "params w4 = params w" and "opt_state w4 = opt_state w"
    by simp_all
qed

theorem evaluation_keeps_parameters_witness:
  "evaluate_once example_net [0, 1] [1, 1] example_world = Inr (1 / 2, example_world\<lparr>rng := 1\<rparr>)
   \<and> params (example_world\<lparr>rng := 1\<rparr>) = params example_world
   \<and> evaluate example_net example_train_loader 3 example_world =
       Inr ((1, 0), example_world\<lparr>training := False, rng := 3\<rparr>)
   \<and> params (example_world\<lparr>training := False, rng := 3\<rparr>) = params example_world
   \<and> check_accuracy example_net example_evaluation_loader ([0, 1], [0, 1]) example_world =
       Inr (1 / 2, 1, example_world\<lparr>rng := 3\<rparr>)
   \<and> train example_net example_train_loader example_evaluation_loader 1 0 (Fin (1 / 2)) example_world =
       Inr (example_world\<lparr>training := True, rng := 4,
              stdout := [Early_terminated 0 (Fin (1 / 2)) (1 / 2)]\<rparr>)
   \<and> params (example_world\<lparr>training := True, rng := 4,
              stdout := [Early_terminated 0 (Fin (1 / 2)) (1 / 2)]\<rparr>) = params example_world"
proof -
  have e1: "evaluate_once example_net [0, 1] [1, 1] example_world = Inr (1 / 2, example_world\<lparr>rng := 1\<rparr>)"
    by (simp add: example_defs)
  have e2: "evaluate example_net example_train_loader 3 example_world =
       Inr ((1, 0), example_world\<lparr>training := False, rng := 3\<rparr>)"
    by (simp add: example_defs)
  have e4: "train example_net example_train_loader example_evaluation_loader 1 0 (Fin (1 / 2)) example_world =
       Inr (example_world\<lparr>training := True, rng := 4,
              stdout := [Early_terminated 0 (Fin (1 / 2)) (1 / 2)]\<rparr>)"
    by (simp add: example_defs)
  note t = evaluation_keeps_parameters [of example_net "[0, 1]" "[1, 1]" example_world
      "1 / 2" "example_world\<lparr>rng := 1\<rparr>" example_train_loader 3 "(1, 0)"
      "example_world\<lparr>training := False, rng := 3\<rparr>" example_evaluation_loader
      "([0, 1], [0, 1])" "1 / 2" 1 "example_world\<lparr>rng := 3\<rparr>" example_train_loader 1 0
      "Fin (1 / 2)" "example_world\<lparr>training := True, rng := 4,
              stdout := [Early_terminated 0 (Fin (1 / 2)) (1 / 2)]\<rparr>"]
  from t e1 e2 example_check e4 show ?thesis by simp
qed

text \<open>
  C2: the threshold of iteration \<open>it\<close> is meant to be the configured scalar, or the
  \<open>it\<close>-th entry of the configured sequence, the last entry once \<open>it\<close> reaches its
  length. When the option is left out the configured value is the scalar default
  \<open>math.inf\<close>, and line 127 raises TypeError at every iteration instead of using it.
\<close>

theorem default_threshold_raises:
  "training_threshold_for (parse_training_threshold None) it = Inl TypeError"
  by (simp add: training_threshold_for_def parse_training_threshold_def)

text \<open>What line 127 does with a sequence: the entry at \<open>it\<close>, or the last one.\<close>

lemma training_threshold_for_Sequence:
  "ts \<noteq> [] \<Longrightarrow>
     training_threshold_for (parse_training_threshold (Some ts)) it =
       Inr (if it < length ts then ts ! it else last ts)"
  by (simp add: training_threshold_for_def parse_training_threshold_def)

lemma train_network_default_raises:
  "train_network N train_loader evaluation_loader gamma (parse_training_threshold None) epochs it w =
     Inl TypeError"
  by (simp add: train_network_def training_threshold_for_def parse_training_threshold_def)

section \<open>Properties of the data split\<close>

lemma concat_chunks: "0 < k \<Longrightarrow> concat (chunks k xs) = xs"
proof (induction k xs rule: chunks.induct)
  case (1 k xs)
  show ?case
  proof (cases "xs = []")
    case True
    then show ?thesis by (subst chunks.simps) simp
  next
    case False
    with "1.prems" have "chunks k xs = take k xs # chunks k (drop k xs)"
      by (subst chunks.simps) simp
    moreover from "1.IH" False "1.prems" have "concat (chunks k (drop k xs)) = drop k xs"
      by simp
    ultimately show ?thesis by simp
  qed
qed

lemma chunks_zero: "chunks 0 xs = []"
  by (subst chunks.simps) simp

lemma set_concat_chunks: "set (concat (chunks k xs)) \<subseteq> set xs"
  by (cases "k = 0") (simp_all add: chunks_zero concat_chunks)

lemma map_nth_perm:
  assumes "set perm = {0..<length xs}"
  shows "set (map (\<lambda>k. xs ! k) perm) = set xs"
proof -
  from assms have "(\<lambda>k. xs ! k) ` set perm = (\<lambda>k. xs ! k) ` {0..<length xs}" by simp
  also have "\<dots> = set xs"
    by (auto simp: in_set_conv_nth)
  finally show ?thesis by simp
qed

lemma DataLoader_iter_draws:
  assumes "set (fst (randperm r (length dataset))) = {0..<length dataset}"
  shows "set (concat (fst (DataLoader_iter randperm dataset batch_size r))) \<subseteq> set dataset"
    and "0 < batch_size \<Longrightarrow>
      set (concat (fst (DataLoader_iter randperm dataset batch_size r))) = set dataset"
proof -
  obtain perm r' where p: "randperm r (length dataset) = (perm, r')"
    by (cases "randperm r (length dataset)")
  with assms have m: "set perm = {0..<length dataset}" by simp
  from p have e: "fst (DataLoader_iter randperm dataset batch_size r)
      = chunks batch_size (map (\<lambda>k. dataset ! k) perm)"
    by (simp add: DataLoader_iter_def)
  from set_concat_chunks [of batch_size "map (\<lambda>k. dataset ! k) perm"] map_nth_perm [OF m]
  show "set (concat (fst (DataLoader_iter randperm dataset batch_size r))) \<subseteq> set dataset"
    unfolding e by simp
  assume "0 < batch_size"
  from concat_chunks [OF this, of "map (\<lambda>k. dataset ! k) perm"] map_nth_perm [OF m]
  show "set (concat (fst (DataLoader_iter randperm dataset batch_size r))) = set dataset"
    unfolding e by simp
qed

lemma main_loaders_Inr:
  assumes "main_loaders randperm n batch_size data_samples r = Inr (L, r')"
  shows "data_samples \<le> n
    \<and> train_indices L = DataLoader_iter randperm [0..<n] batch_size
    \<and> evaluation_indices L = DataLoader_iter randperm [0..<n] data_samples
    \<and> landscape_indices L
        = DataLoader_iter randperm (take data_samples (drop (n - data_samples) (fst (randperm r n)))) data_samples"
proof -
  obtain perm r1 where p: "randperm r n = (perm, r1)" by (cases "randperm r n")
  from assms have le: "data_samples \<le> n"
    by (auto simp: main_loaders_def random_split_def Let_def split: if_splits)
  then have nn: "nat (int n - int data_samples) = n - data_samples" by simp
  from le p have "random_split randperm n [int n - int data_samples, int data_samples] r
      = Inr ([take (n - data_samples) perm, take data_samples (drop (n - data_samples) perm)], r1)"
    by (simp add: random_split_def nn)
  with assms p le show ?thesis
    by (auto simp: main_loaders_def Let_def)
qed

lemma next_iter_Inr:
  "next_iter loader r = Inr (b, r') \<Longrightarrow> b \<in> set (fst (loader r))"
  by (auto simp: next_iter_def split: prod.splits list.splits)

text \<open>
  C3: the batch handed to the landscape computation is meant to come from a held-out
  split, disjoint from what the training and evaluation loaders draw. In \<open>main\<close> both
  of those loaders are built on the whole dataset, so every index of the landscape batch
  is drawn by the training loader in each full pass and lies in the set the evaluation
  loader draws from.
\<close>

theorem landscape_batch_is_trained_on:
  assumes "\<forall>r n. set (fst (randperm r n)) = {0..<n}"
    and "0 < batch_size"
    and "main_loaders randperm n batch_size data_samples r0 = Inr (L, r1)"
    and "next_iter (landscape_indices L) r2 = Inr (batch, r3)"
  shows "batch \<noteq> []
    \<and> set batch \<subseteq> set (concat (fst (train_indices L r4)))
    \<and> set batch \<subseteq> set (concat (fst (evaluation_indices L r5)))"
proof -
  let ?d2 = "take data_samples (drop (n - data_samples) (fst (randperm r0 n)))"
  from main_loaders_Inr [OF assms(3)] have le: "data_samples \<le> n"
    and tr: "train_indices L = DataLoader_iter randperm [0..<n] batch_size"
    and ev: "evaluation_indices L = DataLoader_iter randperm [0..<n] data_samples"
    and la: "landscape_indices L = DataLoader_iter randperm ?d2 data_samples"
    by simp_all
  from assms(1) have p0: "set (fst (randperm r0 n)) = {0..<n}" by blast
  have d2: "set ?d2 \<subseteq> {0..<n}"
  proof -
    have "set ?d2 \<subseteq> set (fst (randperm r0 n))"
      by (meson order_trans set_take_subset set_drop_subset)
    with p0 show ?thesis by simp
  qed
  from next_iter_Inr [OF assms(4)] have mem: "batch \<in> set (fst (landscape_indices L r2))" .
  have pd: "set (fst (randperm r2 (length ?d2))) = {0..<length ?d2}"
    using assms(1) by blast
  from mem have "set batch \<subseteq> set (concat (fst (landscape_indices L r2)))" by auto
  with DataLoader_iter_draws(1) [of randperm r2 ?d2 data_samples, OF pd] la have b2: "set batch \<subseteq> set ?d2"
    by simp
  have pn4: "set (fst (randperm r4 (length [0..<n]))) = {0..<length [0..<n]}"
    using assms(1) by blast
  have pn5: "set (fst (randperm r5 (length [0..<n]))) = {0..<length [0..<n]}"
    using assms(1) by blast
  from DataLoader_iter_draws(2) [of randperm r4 "[0..<n]" batch_size, OF pn4 assms(2)] tr
  have t: "set (concat (fst (train_indices L r4))) = {0..<n}" by simp
  have ne: "batch \<noteq> []" and ds: "0 < data_samples"
  proof -
    obtain perm r' where p: "randperm r2 (length ?d2) = (perm, r')"
      by (cases "randperm r2 (length ?d2)")
    with la have e: "fst (landscape_indices L r2) = chunks data_samples (map (\<lambda>k. ?d2 ! k) perm)"
      by (simp add: DataLoader_iter_def)
    with mem have m: "batch \<in> set (chunks data_samples (map (\<lambda>k. ?d2 ! k) perm))" by simp
    then show "0 < data_samples"
      by (cases "data_samples = 0") (simp_all add: chunks_zero)
    have "[] \<notin> set (chunks k xs)" for k and xs :: "nat list"
    proof (induction k xs rule: chunks.induct)
      case (1 k xs)
      show ?case
      proof (cases "k = 0 \<or> xs = []")
        case True
        then show ?thesis by (subst chunks.simps) simp
      next
        case False
        with "1.IH" show ?thesis by (subst chunks.simps) simp
      qed
    qed
    with m show "batch \<noteq> []" by metis
  qed
  from DataLoader_iter_draws(2) [of randperm r5 "[0..<n]" data_samples, OF pn5 ds] ev
  have e: "set (concat (fst (evaluation_indices L r5))) = {0..<n}" by simp
  from ne b2 d2 t e show ?thesis by auto
qed

lemma upt_4: "[0..<4] = [0, 1, 2, 3]"
  by (simp add: upt_rec)

lemma example_main_loaders:
  "main_loaders example_randperm 4 2 2 () =
     Inr (\<lparr>train_indices = DataLoader_iter example_randperm [0, 1, 2, 3] 2,
            evaluation_indices = DataLoader_iter example_randperm [0, 1, 2, 3] 2,
            landscape_indices = DataLoader_iter example_randperm [2, 3] 2\<rparr>, ())"
  by (simp add: main_loaders_def random_split_def example_randperm_def upt_4 Let_def)

lemma example_landscape_pass:
  "DataLoader_iter example_randperm [2, 3] 2 () = ([[2, 3]], ())"
  by (simp add: DataLoader_iter_def example_randperm_def chunks.simps upt_rec)

lemma example_train_pass:
  "DataLoader_iter example_randperm [0, 1, 2, 3] 2 () = ([[0, 1], [2, 3]], ())"
  by (simp add: DataLoader_iter_def example_randperm_def chunks.simps upt_rec)

theorem landscape_batch_is_trained_on_witness:
  "(\<forall>r n. set (fst (example_randperm r n)) = {0..<n})
   \<and> (0 :: nat) < 2
   \<and> main_loaders example_randperm 4 2 2 () =
       Inr (\<lparr>train_indices = DataLoader_iter example_randperm [0, 1, 2, 3] 2,
              evaluation_indices = DataLoader_iter example_randperm [0, 1, 2, 3] 2,
              landscape_indices = DataLoader_iter example_randperm [2, 3] 2\<rparr>, ())
   \<and> next_iter (DataLoader_iter example_randperm [2, 3] 2) () = Inr ([2, 3], ())
   \<and> fst (DataLoader_iter example_randperm [0, 1, 2, 3] 2 ()) = [[0, 1], [2, 3]]
   \<and> set [2, 3 :: nat] \<subseteq> set (concat (fst (DataLoader_iter example_randperm [0, 1, 2, 3] 2 ())))"
proof -
  have p: "\<forall>r n. set (fst (example_randperm r n)) = {0..<n}"
    by (simp add: example_randperm_def)
  have b: "(0 :: nat) < 2" by simp
  have n: "next_iter (landscape_indices
        \<lparr>train_indices = DataLoader_iter example_randperm [0, 1, 2, 3] 2,
         evaluation_indices = DataLoader_iter example_randperm [0, 1, 2, 3] 2,
         landscape_indices = DataLoader_iter example_randperm [2, 3] 2\<rparr>) () = Inr ([2, 3], ())"
    by (simp add: next_iter_def example_landscape_pass)
  from landscape_batch_is_trained_on [OF p b example_main_loaders n, of "()" "()"]
  have s: "set [2, 3 :: nat] \<subseteq> set (concat (fst (DataLoader_iter example_randperm [0, 1, 2, 3] 2 ())))"
    by simp
  from n have n': "next_iter (DataLoader_iter example_randperm [2, 3] 2) () = Inr ([2, 3], ())"
    by simp
  from example_train_pass
  have t: "fst (DataLoader_iter example_randperm [0, 1, 2, 3] 2 ()) = [[0, 1], [2, 3]]"
    by simp
  show ?thesis
    by (rule conjI [OF p conjI [OF b conjI [OF example_main_loaders conjI [OF n' conjI [OF t s]]]]])
qed

section \<open>Properties of the landscape average\<close>

lemma mean_ys_length: "length (mean_ys n yss) = n"
  by (simp add: mean_ys_def)

lemma mean_ys_nth:
  "k < n \<Longrightarrow> mean_ys n yss ! k = sum_list (map (\<lambda>ys. ys ! k) yss) / real (length yss)"
  by (simp add: mean_ys_def)

lemma average_across_networks_Cons:
  assumes "same_shapes (first # rest)"
  shows "average_across_networks (first # rest) =
     Inr (map (\<lambda>i. map (\<lambda>j. (fst (first ! i ! j),
                               mean_ys (length (snd (first ! i ! j)))
                                 (map (\<lambda>l. snd (l ! i ! j)) (first # rest))))
                     [0..<length (first ! i)])
               [0..<length first])"
  using assms by (simp add: average_across_networks_def)

lemma shape_nth:
  "i < length l \<Longrightarrow> j < length (l ! i) \<Longrightarrow> shape l ! i ! j = length (snd (l ! i ! j))"
  by (simp add: shape_def)

text \<open>
  C5: for a list of per-network landscapes of one shape the average has that shape, keeps
  the x-grid, and at every layer, dimension and position its y-value is the sum of the
  networks' y-values there divided by the number of networks. The three single-layer,
  single-dimension curves \<open>[1,2,3]\<close>, \<open>[3,2,1]\<close> and \<open>[2,2,2]\<close> over a common
  grid average to \<open>[2,2,2]\<close>.
\<close>

theorem average_across_networks_mean:
  "(ls \<noteq> [] \<and> same_shapes ls \<longrightarrow>
      (\<exists>avg. average_across_networks ls = Inr avg
         \<and> shape avg = shape (hd ls)
         \<and> (\<forall>i < length avg. \<forall>j < length (avg ! i).
               fst (avg ! i ! j) = fst (hd ls ! i ! j)
               \<and> (\<forall>k < length (snd (avg ! i ! j)).
                     snd (avg ! i ! j) ! k
                       = sum_list (map (\<lambda>l. snd (l ! i ! j) ! k) ls) / real (length ls)))))
   \<and> average_across_networks [[[(grid, [1, 2, 3])]], [[(grid, [3, 2, 1])]], [[(grid, [2, 2, 2])]]]
        = Inr [[(grid, [2, 2, 2])]]"
proof (intro conjI impI)
  assume a: "ls \<noteq> [] \<and> same_shapes ls"
  then obtain first rest where ls: "ls = first # rest" by (cases ls) auto
  let ?avg = "map (\<lambda>i. map (\<lambda>j. (fst (first ! i ! j),
                               mean_ys (length (snd (first ! i ! j)))
                                 (map (\<lambda>l. snd (l ! i ! j)) ls)))
                     [0..<length (first ! i)])
               [0..<length first]"
  from a ls have avg: "average_across_networks ls = Inr ?avg"
    by (simp add: average_across_networks_Cons)
  have sh: "shape ?avg = shape (hd ls)"
    unfolding ls shape_def
    by (auto simp: mean_ys_length intro!: nth_equalityI)
  have pt: "fst (?avg ! i ! j) = fst (hd ls ! i ! j)
               \<and> (\<forall>k < length (snd (?avg ! i ! j)).
                     snd (?avg ! i ! j) ! k
                       = sum_list (map (\<lambda>l. snd (l ! i ! j) ! k) ls) / real (length ls))"
    if i: "i < length ?avg" and j: "j < length (?avg ! i)" for i j
  proof -
    from i have i': "i < length first" by simp
    with j have j': "j < length (first ! i)" by simp
    from i' j' have e: "?avg ! i ! j = (fst (first ! i ! j),
        mean_ys (length (snd (first ! i ! j))) (map (\<lambda>l. snd (l ! i ! j)) ls))"
      by simp
    show ?thesis
      unfolding e by (simp add: ls mean_ys_length mean_ys_nth comp_def)
  qed
  from avg sh pt
  show "\<exists>avg. average_across_networks ls = Inr avg
         \<and> shape avg = shape (hd ls)
         \<and> (\<forall>i < length avg. \<forall>j < length (avg ! i).
               fst (avg ! i ! j) = fst (hd ls ! i ! j)
               \<and> (\<forall>k < length (snd (avg ! i ! j)).
                     snd (avg ! i ! j) ! k
                       = sum_list (map (\<lambda>l. snd (l ! i ! j) ! k) ls) / real (length ls)))"
    by blast
next
  show "average_across_networks [[[(grid, [1, 2, 3])]], [[(grid, [3, 2, 1])]], [[(grid, [2, 2, 2])]]]
        = Inr [[(grid, [2, 2, 2])]]"
    by (simp add: average_across_networks_def same_shapes_def shape_def mean_ys_def upt_rec)
qed


theorem average_across_networks_mean_witness:
  "[[[([0, 1], [1, 3]), ([0, 1], [0, 0])]], [[([0, 1], [3, 5]), ([0, 1], [4, 2])]]] \<noteq> []
   \<and> same_shapes [[[([0, 1], [1, 3]), ([0, 1], [0, 0])]], [[([0, 1], [3, 5]), ([0, 1], [4, 2])]]]
   \<and> average_across_networks
        [[[([0, 1], [1, 3]), ([0, 1], [0, 0])]], [[([0, 1], [3, 5]), ([0, 1], [4, 2])]]]
       = Inr [[([0, 1], [2, 4]), ([0, 1], [2, 1])]]
   \<and> average_across_networks
        [[[([0, 1, 2], [1, 2, 3])]], [[([0, 1, 2], [3, 2, 1])]], [[([0, 1, 2], [2, 2, 2])]]]
       = Inr [[([0, 1, 2], [2, 2, 2])]]"
proof -
  let ?ls = "[[[([0, 1], [1, 3]), ([0, 1], [0, 0])]], [[([0, 1], [3, 5]), ([0, 1], [4, 2])]]] :: landscape list"
  have s: "same_shapes ?ls"
    by (simp add: same_shapes_def shape_def)
  have v: "average_across_networks ?ls = Inr [[([0, 1], [2, 4]), ([0, 1], [2, 1])]]"
    by (simp add: average_across_networks_def s mean_ys_def upt_rec)
  from average_across_networks_mean [of ?ls "[0, 1, 2]"] s v show ?thesis
    by simp
qed

section \<open>Properties of the result writer\<close>

lemma digit_inj: "a < 10 \<Longrightarrow> b < 10 \<Longrightarrow> digit a = digit b \<Longrightarrow> a = b"
proof -
  assume a: "a < 10" and b: "b < 10" and e: "digit a = digit b"
  from e have "(of_char (digit a) :: nat) = of_char (digit b)" by simp
  with a b show "a = b" by (simp add: digit_def)
qed

lemma str_nat_small: "n < 10 \<Longrightarrow> str_nat n = [digit n]"
  by (subst str_nat.simps) simp

lemma str_nat_large: "\<not> n < 10 \<Longrightarrow> str_nat n = str_nat (n div 10) @ [digit (n mod 10)]"
  by (subst str_nat.simps) simp

lemma str_nat_not_Nil: "str_nat n \<noteq> []"
  by (cases "n < 10") (simp_all add: str_nat_small str_nat_large)

lemma str_nat_inj: "str_nat n = str_nat m \<Longrightarrow> n = m"
proof (induction n arbitrary: m rule: str_nat.induct)
  case (1 n)
  show ?case
  proof (cases "n < 10")
    case True
    show ?thesis
    proof (cases "m < 10")
      case m: True
      with True "1.prems" show ?thesis
        by (auto simp: str_nat_small dest: digit_inj)
    next
      case m: False
      with True "1.prems" have "[digit n] = str_nat (m div 10) @ [digit (m mod 10)]"
        by (simp add: str_nat_small str_nat_large)
      then have "str_nat (m div 10) = []" by simp
      then show ?thesis by (simp add: str_nat_not_Nil)
    qed
  next
    case False
    show ?thesis
    proof (cases "m < 10")
      case m: True
      with False "1.prems" have "str_nat (n div 10) @ [digit (n mod 10)] = [digit m]"
        by (simp add: str_nat_small str_nat_large)
      then show ?thesis by (simp add: str_nat_not_Nil)
    next
      case m: False
      with False "1.prems" have e: "str_nat (n div 10) = str_nat (m div 10)"
        and d: "digit (n mod 10) = digit (m mod 10)"
        by (simp_all add: str_nat_large)
      from "1.IH" [OF False e] have "n div 10 = m div 10" .
      moreover from d have "n mod 10 = m mod 10"
        by (auto dest!: digit_inj [rotated 2])
      ultimately show ?thesis
        by (metis div_mult_mod_eq)
    qed
  qed
qed

lemma str_nat_digits: "set (str_nat n) \<subseteq> digit ` {..<10}"
proof (induction n rule: str_nat.induct)
  case (1 n)
  show ?case
  proof (cases "n < 10")
    case True
    then show ?thesis by (simp add: str_nat_small)
  next
    case False
    with "1.IH" show ?thesis by (simp add: str_nat_large)
  qed
qed

lemma d_not_digit: "CHR ''d'' \<notin> digit ` {..<10}"
proof
  assume "CHR ''d'' \<in> digit ` {..<10}"
  then obtain k where k: "k < 10" and e: "CHR ''d'' = digit k" by auto
  from e have "(of_char (CHR ''d'') :: nat) = of_char (digit k)" by simp
  with k show False by (simp add: digit_def)
qed

lemma dot_not_digit: "CHR ''.'' \<notin> digit ` {..<10}"
proof
  assume "CHR ''.'' \<in> digit ` {..<10}"
  then obtain k where k: "k < 10" and e: "CHR ''.'' = digit k" by auto
  from e have "(of_char (CHR ''.'') :: nat) = of_char (digit k)" by simp
  with k show False by (simp add: digit_def)
qed

lemma digits_prefix_unique:
  assumes "set a \<subseteq> D" and "set a' \<subseteq> D" and "c \<notin> D"
    and "a @ c # r = a' @ c # r'"
  shows "a = a' \<and> r = r'"
proof -
  have "takeWhile (\<lambda>x. x \<in> D) (a @ c # r) = a"
    using assms(1,3) by (simp add: takeWhile_append2 subset_iff)
  moreover have "takeWhile (\<lambda>x. x \<in> D) (a' @ c # r') = a'"
    using assms(2,3) by (simp add: takeWhile_append2 subset_iff)
  ultimately have "a = a'" using assms(4) by simp
  with assms(4) show ?thesis by simp
qed

lemma csv_name_inj:
  assumes "csv_name l d = csv_name l' d'"
  shows "l = l' \<and> d = d'"
proof -
  from assms have "str_nat l @ CHR ''d'' # (''im'' @ str_nat d @ ''.csv'')
      = str_nat l' @ CHR ''d'' # (''im'' @ str_nat d' @ ''.csv'')"
    by (simp add: csv_name_def)
  from digits_prefix_unique [OF str_nat_digits str_nat_digits d_not_digit this]
  have l: "str_nat l = str_nat l'" and "str_nat d @ CHR ''.'' # ''csv'' = str_nat d' @ CHR ''.'' # ''csv''"
    by simp_all
  from digits_prefix_unique [OF str_nat_digits str_nat_digits dot_not_digit this(2)]
  have "str_nat d = str_nat d'" by simp
  with l show ?thesis by (blast dest: str_nat_inj)
qed

lemma csv_name_not_Nil: "csv_name l d \<noteq> []"
  by (simp add: csv_name_def)

lemma csv_path_inj: "csv_path l d = csv_path l' d' \<Longrightarrow> l = l' \<and> d = d'"
  by (simp add: csv_path_def csv_name_inj)

lemma csv_path_not_dir: "csv_path l d \<noteq> landscapes_csv"
  by (simp add: csv_path_def csv_name_not_Nil)

lemma savetxt_ok:
  assumes "fs landscapes_csv = Some Dir" and "fs (csv_path l d) \<noteq> Some Dir"
  shows "savetxt landscapes_csv (csv_name l d) ys fs = Inr (fs(csv_path l d \<mapsto> File ys))"
  using assms by (simp add: savetxt_def csv_path_def)

lemma write_dims_ok:
  assumes "fs landscapes_csv = Some Dir"
    and "\<forall>k < length dims. fs (csv_path l (d0 + k)) \<noteq> Some Dir"
  shows "\<exists>fs'. write_dims l d0 dims fs = Inr fs'
     \<and> (\<forall>k < length dims. fs' (csv_path l (d0 + k)) = Some (File (snd (dims ! k))))
     \<and> (\<forall>p. (\<forall>k < length dims. p \<noteq> csv_path l (d0 + k)) \<longrightarrow> fs' p = fs p)"
  using assms
proof (induction dims arbitrary: d0 fs)
  case Nil
  then show ?case by simp
next
  case (Cons c dims)
  let ?fs = "fs(csv_path l d0 \<mapsto> File (snd c))"
  from Cons.prems(2) have "fs (csv_path l d0) \<noteq> Some Dir" by fastforce
  from savetxt_ok [OF Cons.prems(1) this]
  have sv: "savetxt landscapes_csv (csv_name l d0) (snd c) fs = Inr ?fs" .
  have dir: "?fs landscapes_csv = Some Dir"
    using Cons.prems(1) csv_path_not_dir [of l d0] by simp
  have free: "\<forall>k < length dims. ?fs (csv_path l (Suc d0 + k)) \<noteq> Some Dir"
  proof (intro allI impI)
    fix k assume "k < length dims"
    then have "Suc k < length (c # dims)" by simp
    with Cons.prems(2) have "fs (csv_path l (d0 + Suc k)) \<noteq> Some Dir" by blast
    then show "?fs (csv_path l (Suc d0 + k)) \<noteq> Some Dir" by simp
  qed
  from Cons.IH [OF dir free] obtain fs' where run: "write_dims l (Suc d0) dims ?fs = Inr fs'"
    and wr: "\<forall>k < length dims. fs' (csv_path l (Suc d0 + k)) = Some (File (snd (dims ! k)))"
    and fr: "\<forall>p. (\<forall>k < length dims. p \<noteq> csv_path l (Suc d0 + k)) \<longrightarrow> fs' p = ?fs p"
    by blast
  have r: "write_dims l d0 (c # dims) fs = Inr fs'"
    using sv run by simp
  have first: "fs' (csv_path l d0) = Some (File (snd c))"
  proof -
    have "\<forall>k < length dims. csv_path l d0 \<noteq> csv_path l (Suc d0 + k)"
      by (auto dest: csv_path_inj)
    with fr have "fs' (csv_path l d0) = ?fs (csv_path l d0)" by blast
    then show ?thesis by simp
  qed
  have w: "\<forall>k < length (c # dims). fs' (csv_path l (d0 + k)) = Some (File (snd ((c # dims) ! k)))"
  proof (intro allI impI)
    fix k assume k: "k < length (c # dims)"
    show "fs' (csv_path l (d0 + k)) = Some (File (snd ((c # dims) ! k)))"
    proof (cases k)
      case 0
      with first show ?thesis by simp
    next
      case (Suc j)
      with k wr show ?thesis by simp
    qed
  qed
  have f: "\<forall>p. (\<forall>k < length (c # dims). p \<noteq> csv_path l (d0 + k)) \<longrightarrow> fs' p = fs p"
  proof (intro allI impI)
    fix p assume p: "\<forall>k < length (c # dims). p \<noteq> csv_path l (d0 + k)"
    then have p0: "p \<noteq> csv_path l d0" by fastforce
    have "\<forall>k < length dims. p \<noteq> csv_path l (Suc d0 + k)"
    proof (intro allI impI)
      fix k assume "k < length dims"
      then have "Suc k < length (c # dims)" by simp
      with p have "p \<noteq> csv_path l (d0 + Suc k)" by blast
      then show "p \<noteq> csv_path l (Suc d0 + k)" by simp
    qed
    with fr have "fs' p = ?fs p" by blast
    with p0 show "fs' p = fs p" by simp
  qed
  from r w f show ?case by blast
qed

lemma write_layers_ok:
  assumes "fs landscapes_csv = Some Dir"
    and "\<forall>i < length avg. \<forall>j < length (avg ! i). fs (csv_path (l0 + i) j) \<noteq> Some Dir"
  shows "\<exists>fs'. write_layers l0 avg fs = Inr fs'
     \<and> (\<forall>i < length avg. \<forall>j < length (avg ! i).
           fs' (csv_path (l0 + i) j) = Some (File (snd (avg ! i ! j))))
     \<and> (\<forall>p. (\<forall>i < length avg. \<forall>j < length (avg ! i). p \<noteq> csv_path (l0 + i) j) \<longrightarrow> fs' p = fs p)"
  using assms
proof (induction avg arbitrary: l0 fs)
  case Nil
  then show ?case by simp
next
  case (Cons layer avg)
  have h0: "\<forall>k < length layer. fs (csv_path l0 (0 + k)) \<noteq> Some Dir"
  proof (intro allI impI)
    fix k assume "k < length layer"
    with Cons.prems(2) [rule_format, of 0 k] show "fs (csv_path l0 (0 + k)) \<noteq> Some Dir"
      by simp
  qed
  from write_dims_ok [OF Cons.prems(1) h0] obtain fs1 where
    wd: "write_dims l0 0 layer fs = Inr fs1"
    and w1: "\<forall>k < length layer. fs1 (csv_path l0 (0 + k)) = Some (File (snd (layer ! k)))"
    and f1: "\<forall>p. (\<forall>k < length layer. p \<noteq> csv_path l0 (0 + k)) \<longrightarrow> fs1 p = fs p"
    by blast
  have keep: "fs1 (csv_path (Suc l0 + i) j) = fs (csv_path (Suc l0 + i) j)" for i j
  proof -
    have "\<forall>k < length layer. csv_path (Suc l0 + i) j \<noteq> csv_path l0 (0 + k)"
      by (auto dest: csv_path_inj)
    with f1 show ?thesis by blast
  qed
  have dir: "fs1 landscapes_csv = Some Dir"
  proof -
    have "\<forall>k < length layer. landscapes_csv \<noteq> csv_path l0 (0 + k)"
      using csv_path_not_dir by metis
    with f1 Cons.prems(1) show ?thesis by simp
  qed
  have free: "\<forall>i < length avg. \<forall>j < length (avg ! i). fs1 (csv_path (Suc l0 + i) j) \<noteq> Some Dir"
  proof (intro allI impI)
    fix i j assume "i < length avg" and "j < length (avg ! i)"
    with Cons.prems(2) [rule_format, of "Suc i" j] keep [of i j]
    show "fs1 (csv_path (Suc l0 + i) j) \<noteq> Some Dir" by simp
  qed
  from Cons.IH [OF dir free] obtain fs' where run: "write_layers (Suc l0) avg fs1 = Inr fs'"
    and wr: "\<forall>i < length avg. \<forall>j < length (avg ! i).
           fs' (csv_path (Suc l0 + i) j) = Some (File (snd (avg ! i ! j)))"
    and fr: "\<forall>p. (\<forall>i < length avg. \<forall>j < length (avg ! i). p \<noteq> csv_path (Suc l0 + i) j) \<longrightarrow> fs' p = fs1 p"
    by blast
  have r: "write_layers l0 (layer # avg) fs = Inr fs'"
    using wd run by simp
  have w: "\<forall>i < length (layer # avg). \<forall>j < length ((layer # avg) ! i).
           fs' (csv_path (l0 + i) j) = Some (File (snd ((layer # avg) ! i ! j)))"
  proof (intro allI impI)
    fix i j assume i: "i < length (layer # avg)" and j: "j < length ((layer # avg) ! i)"
    show "fs' (csv_path (l0 + i) j) = Some (File (snd ((layer # avg) ! i ! j)))"
    proof (cases i)
      case 0
      have "\<forall>i' < length avg. \<forall>j' < length (avg ! i'). csv_path l0 j \<noteq> csv_path (Suc l0 + i') j'"
        by (auto dest: csv_path_inj)
      with fr have "fs' (csv_path l0 j) = fs1 (csv_path l0 j)" by blast
      with 0 j w1 show ?thesis by simp
    next
      case (Suc i')
      with i j wr show ?thesis by simp
    qed
  qed
  have f: "\<forall>p. (\<forall>i < length (layer # avg). \<forall>j < length ((layer # avg) ! i). p \<noteq> csv_path (l0 + i) j)
       \<longrightarrow> fs' p = fs p"
  proof (intro allI impI)
    fix p assume p: "\<forall>i < length (layer # avg). \<forall>j < length ((layer # avg) ! i). p \<noteq> csv_path (l0 + i) j"
    have a: "\<forall>k < length layer. p \<noteq> csv_path l0 (0 + k)"
    proof (intro allI impI)
      fix k assume "k < length layer"
      with p [rule_format, of 0 k] show "p \<noteq> csv_path l0 (0 + k)" by simp
    qed
    have b: "\<forall>i < length avg. \<forall>j < length (avg ! i). p \<noteq> csv_path (Suc l0 + i) j"
    proof (intro allI impI)
      fix i j assume "i < length avg" and "j < length (avg ! i)"
      with p [rule_format, of "Suc i" j] show "p \<noteq> csv_path (Suc l0 + i) j" by simp
    qed
    from fr b have "fs' p = fs1 p" by blast
    also from f1 a have "fs1 p = fs p" by blast
    finally show "fs' p = fs p" .
  qed
  from r w f show ?case by blast
qed

text \<open>
  C8: with CSV output enabled (the default), and no directory standing where a file is
  to be written, the writer succeeds; the output directory exists afterwards (it is
  created when absent); for every (layer, dimension) pair of the averaged landscape the
  file named by the two indices holds that pair's averaged y-values as its one column;
  no other path changes; and two pairs never share a file name, so there is exactly one
  file per pair.
\<close>

theorem save_csv_files_writes:
  "((fs landscapes_csv = None \<or> fs landscapes_csv = Some Dir)
      \<and> (\<forall>l d. fs (csv_path l d) \<noteq> Some Dir) \<longrightarrow>
      (\<exists>fs'. save_csv_files True avg fs = Inr fs'
         \<and> fs' landscapes_csv = Some Dir
         \<and> (\<forall>l < length avg. \<forall>d < length (avg ! l).
               fs' (csv_path l d) = Some (File (snd (avg ! l ! d))))
         \<and> (\<forall>p. p \<noteq> landscapes_csv
                \<and> (\<forall>l < length avg. \<forall>d < length (avg ! l). p \<noteq> csv_path l d)
               \<longrightarrow> fs' p = fs p)))
   \<and> (csv_path l d = csv_path l' d' \<longrightarrow> l = l' \<and> d = d')"
proof (intro conjI impI)
  assume a: "(fs landscapes_csv = None \<or> fs landscapes_csv = Some Dir)
      \<and> (\<forall>l d. fs (csv_path l d) \<noteq> Some Dir)"
  let ?fs = "fs(landscapes_csv \<mapsto> Dir)"
  have pre: "(if \<not> path_exists fs landscapes_csv then mkdir landscapes_csv fs else Inr fs) = Inr ?fs"
  proof (cases "fs landscapes_csv")
    case None
    then show ?thesis by (simp add: path_exists_def mkdir_def)
  next
    case (Some n)
    with a have "fs landscapes_csv = Some Dir" by simp
    then have "?fs = fs" by (simp add: fun_upd_idem)
    with \<open>fs landscapes_csv = Some Dir\<close> show ?thesis
      by (simp add: path_exists_def)
  qed
  have dir: "?fs landscapes_csv = Some Dir" by simp
  have free: "\<forall>i < length avg. \<forall>j < length (avg ! i). ?fs (csv_path (0 + i) j) \<noteq> Some Dir"
    using a by (simp add: csv_path_not_dir)
  from write_layers_ok [OF dir free] obtain fs' where run: "write_layers 0 avg ?fs = Inr fs'"
    and wr: "\<forall>i < length avg. \<forall>j < length (avg ! i).
           fs' (csv_path (0 + i) j) = Some (File (snd (avg ! i ! j)))"
    and fr: "\<forall>p. (\<forall>i < length avg. \<forall>j < length (avg ! i). p \<noteq> csv_path (0 + i) j) \<longrightarrow> fs' p = ?fs p"
    by blast
  have r: "save_csv_files True avg fs = Inr fs'"
    using pre run by (simp add: save_csv_files_def)
  have d: "fs' landscapes_csv = Some Dir"
  proof -
    have "\<forall>i < length avg. \<forall>j < length (avg ! i). landscapes_csv \<noteq> csv_path (0 + i) j"
      using csv_path_not_dir by metis
    with fr have "fs' landscapes_csv = ?fs landscapes_csv" by blast
    then show ?thesis by simp
  qed
  have w: "\<forall>l < length avg. \<forall>d < length (avg ! l). fs' (csv_path l d) = Some (File (snd (avg ! l ! d)))"
    using wr by simp
  have f: "\<forall>p. p \<noteq> landscapes_csv
                \<and> (\<forall>l < length avg. \<forall>d < length (avg ! l). p \<noteq> csv_path l d)
               \<longrightarrow> fs' p = fs p"
  proof (intro allI impI)
    fix p assume p: "p \<noteq> landscapes_csv \<and> (\<forall>l < length avg. \<forall>d < length (avg ! l). p \<noteq> csv_path l d)"
    then have "\<forall>i < length avg. \<forall>j < length (avg ! i). p \<noteq> csv_path (0 + i) j" by simp
    with fr have "fs' p = ?fs p" by blast
    with p show "fs' p = fs p" by simp
  qed
  from r d w f
  show "\<exists>fs'. save_csv_files True avg fs = Inr fs'
         \<and> fs' landscapes_csv = Some Dir
         \<and> (\<forall>l < length avg. \<forall>d < length (avg ! l).
               fs' (csv_path l d) = Some (File (snd (avg ! l ! d))))
         \<and> (\<forall>p. p \<noteq> landscapes_csv
                \<and> (\<forall>l < length avg. \<forall>d < length (avg ! l). p \<noteq> csv_path l d)
               \<longrightarrow> fs' p = fs p)"
    by blast
next
  assume "csv_path l d = csv_path l' d'"
  from csv_path_inj [OF this] show "l = l'" and "d = d'" by simp_all
qed

lemma digit_0: "digit 0 = CHR ''0''"
  unfolding digit_def by code_simp

lemma digit_1: "digit 1 = CHR ''1''"
  unfolding digit_def by code_simp

lemma csv_path_example: "csv_path 0 1 = ''./landscapes_csv/layer0dim1.csv''"
proof -
  have "str_nat 0 = ''0''"
    by (simp add: str_nat_small digit_0)
  moreover have "str_nat 1 = [digit 1]"
    by (rule str_nat_small) simp
  ultimately have "str_nat 0 = ''0''" and "str_nat 1 = ''1''"
    by (simp_all only: digit_1)
  then show ?thesis
    by (simp add: csv_path_def csv_name_def landscapes_csv_def)
qed

theorem save_csv_files_writes_witness:
  "(Map.empty landscapes_csv = None \<or> Map.empty landscapes_csv = Some Dir)
   \<and> (\<forall>l d. Map.empty (csv_path l d) \<noteq> Some Dir)
   \<and> (\<exists>fs'. save_csv_files True [[([0, 1], [2, 2]), ([0, 1], [1, 3])], [([0, 1], [0, 5])]] Map.empty = Inr fs'
        \<and> fs' landscapes_csv = Some Dir
        \<and> fs' (csv_path 0 0) = Some (File [2, 2])
        \<and> fs' (csv_path 0 1) = Some (File [1, 3])
        \<and> fs' (csv_path 1 0) = Some (File [0, 5])
        \<and> fs' ''./landscapes_csv/layer0dim1.csv'' = Some (File [1, 3])
        \<and> fs' ''./other.csv'' = None)"
proof -
  let ?avg = "[[([0, 1], [2, 2]), ([0, 1], [1, 3])], [([0, 1], [0, 5])]] :: landscape"
  have h: "(Map.empty landscapes_csv = None \<or> Map.empty landscapes_csv = Some Dir)
      \<and> (\<forall>l d. Map.empty (csv_path l d) \<noteq> Some Dir)"
    by simp
  from save_csv_files_writes [of Map.empty ?avg, THEN conjunct1, THEN mp, OF h]
  obtain fs' where r: "save_csv_files True ?avg Map.empty = Inr fs'"
    and d: "fs' landscapes_csv = Some Dir"
    and w: "\<forall>l < length ?avg. \<forall>d < length (?avg ! l). fs' (csv_path l d) = Some (File (snd (?avg ! l ! d)))"
    and f: "\<forall>p. p \<noteq> landscapes_csv
                \<and> (\<forall>l < length ?avg. \<forall>d < length (?avg ! l). p \<noteq> csv_path l d)
               \<longrightarrow> fs' p = Map.empty p"
    by blast
  from w [rule_format, of 0 0] have w00: "fs' (csv_path 0 0) = Some (File [2, 2])" by simp
  from w [rule_format, of 0 1] have w01: "fs' (csv_path 0 1) = Some (File [1, 3])" by simp
  from w [rule_format, of 1 0] have w10: "fs' (csv_path 1 0) = Some (File [0, 5])" by simp
  from w01 have n01: "fs' ''./landscapes_csv/layer0dim1.csv'' = Some (File [1, 3])"
    by (simp only: csv_path_example)
  have "''./other.csv'' \<noteq> landscapes_csv
      \<and> (\<forall>l < length ?avg. \<forall>d < length (?avg ! l). ''./other.csv'' \<noteq> csv_path l d)"
    by (simp add: landscapes_csv_def csv_path_def)
  with f have o: "fs' ''./other.csv'' = None" by simp
  from h r d w00 w01 w10 n01 o show ?thesis by blast
qed

end
